theory Spec2Isabelle
  imports Main "HOL-Library.AList" "HOL-Library.Char_ord" "HOL-Library.List_Lexorder"
    "HOL-Library.Product_Lexorder"
begin

section \<open>Python values shared by both modules\<close>

text \<open>
  Exceptions of the source are values. Each constructor carries the message the source
  formats, so that a statement can say what a message names.
\<close>

datatype error =
    AssertionError string
  | ValueError string
  | AttributeError string
  | NotFoundError string

section \<open>The example generator of \<open>GeneratorBasedBuilder._download_and_prepare\<close>\<close>

text \<open>
  \<open>dataset_builder.py\<close>, lines 632-644. The caller's \<open>_generate_examples(**kwargs)\<close> is a
  finite single-pass sequence, here the list of the examples it yields; the feature
  encoder \<open>self.info.features.encode_example\<close> is injected, here a function.
  \<open>max_examples_per_split\<close> is \<open>None\<close> or a Python int.

  The test \<open>max_examples_per_split and i >= max_examples_per_split\<close> uses Python
  truthiness: \<open>None\<close> and \<open>0\<close> are false, every other int is true.
\<close>

definition truthy_int :: "int option \<Rightarrow> bool" where
  "truthy_int m = (case m of None \<Rightarrow> False | Some n \<Rightarrow> n \<noteq> 0)"

definition cap_reached :: "int option \<Rightarrow> int \<Rightarrow> bool" where
  "cap_reached max_examples_per_split i =
     (truthy_int max_examples_per_split \<and> i \<ge> the max_examples_per_split)"

text \<open>
  The loop \<open>for i, ex in enumerate(...)\<close>: \<open>i\<close> is the index of \<open>ex\<close>, \<open>break\<close> ends the
  sequence, \<open>yield\<close> hands the encoded example on.
\<close>

fun generator_loop :: "('ex \<Rightarrow> 'r) \<Rightarrow> int option \<Rightarrow> int \<Rightarrow> 'ex list \<Rightarrow> 'r list" where
  "generator_loop encode_example m i [] = []"
| "generator_loop encode_example m i (ex # exs) =
     (if cap_reached m i then []
      else encode_example ex # generator_loop encode_example m (i + 1) exs)"

definition generator_fn :: "('ex \<Rightarrow> 'r) \<Rightarrow> int option \<Rightarrow> 'ex list \<Rightarrow> 'r list" where
  "generator_fn encode_example max_examples_per_split examples =
     generator_loop encode_example max_examples_per_split 0 examples"

section \<open>Strings, paths and versions\<close>

text \<open>
  Python's \<open>s.startswith(p)\<close>, \<open>s.endswith(p)\<close> and \<open>s.split(sep)\<close> for a separator of
  one character: \<open>split\<close> cuts at every occurrence and keeps empty pieces, so the result
  has one more element than \<open>s\<close> has separators.
\<close>

fun startswith :: "string \<Rightarrow> string \<Rightarrow> bool" where
  "startswith s [] = True"
| "startswith [] (c # p) = False"
| "startswith (d # s) (c # p) = (d = c \<and> startswith s p)"

definition endswith :: "string \<Rightarrow> string \<Rightarrow> bool" where
  "endswith s p = startswith (rev s) (rev p)"

fun split :: "char \<Rightarrow> string \<Rightarrow> string list" where
  "split sep [] = [[]]"
| "split sep (c # cs) =
     (if c = sep then [] # split sep cs
      else (case split sep cs of [] \<Rightarrow> [[c]] | w # ws \<Rightarrow> (c # w) # ws))"

text \<open>\<open>os.path.join(a, b)\<close> of \<open>posixpath\<close>: an absolute \<open>b\<close> replaces \<open>a\<close>.\<close>

definition os_path_join :: "string \<Rightarrow> string \<Rightarrow> string" where
  "os_path_join a b =
     (if startswith b ''/'' then b
      else if a = [] \<or> endswith a ''/'' then a @ b
      else a @ ''/'' @ b)"

text \<open>Decimal digits, \<open>str(n)\<close> of a natural number and its inverse.\<close>

definition isdigit :: "char \<Rightarrow> bool" where
  "isdigit c = (c \<in> set ''0123456789'')"

definition digit_value :: "char \<Rightarrow> nat" where
  "digit_value c = of_char c - 48"

definition digit_char :: "nat \<Rightarrow> char" where
  "digit_char d = char_of (48 + d)"

fun str_nat :: "nat \<Rightarrow> string" where
  "str_nat n = (if n < 10 then [digit_char n] else str_nat (n div 10) @ [digit_char (n mod 10)])"

declare str_nat.simps [simp del]

definition nat_of_digits :: "string \<Rightarrow> nat" where
  "nat_of_digits ds = foldl (\<lambda>acc c. 10 * acc + digit_value c) 0 ds"

text \<open>
  Modelled from the spec: \<open>utils.Version\<close>, whose code is not among the sources. Section 3
  of the spec: a three-component semantic version (major.minor.patch) with total
  ordering. Its constructor parses a string and raises \<open>ValueError\<close> on a name that is not
  a version (the source catches exactly that, line 357); \<open>str\<close> prints it back. The order
  is the lexicographic order of the three components.
\<close>

type_synonym Version = "nat \<times> nat \<times> nat"

definition Version_component :: "string \<Rightarrow> bool" where
  "Version_component s = (s \<noteq> [] \<and> list_all isdigit s)"

definition Version_parse :: "string \<Rightarrow> error + Version" where
  "Version_parse s =
     (case split (CHR ''.'') s of
        [major, minor, patch] \<Rightarrow>
          if Version_component major \<and> Version_component minor \<and> Version_component patch
          then Inr (nat_of_digits major, nat_of_digits minor, nat_of_digits patch)
          else Inl (ValueError (''Invalid version '' @ s))
      | _ \<Rightarrow> Inl (ValueError (''Invalid version '' @ s)))"

definition Version_str :: "Version \<Rightarrow> string" where
  "Version_str v =
     (case v of (major, minor, patch) \<Rightarrow>
        str_nat major @ ''.'' @ str_nat minor @ ''.'' @ str_nat patch)"

section \<open>The storage backend\<close>

text \<open>
  \<open>tf.io.gfile\<close> is an abstract storage backend. Its state is the list of the paths that
  exist (a path exists when it or something below it is listed) and the log of the
  mutations done through it and of what the build prints, in order. \<open>'r\<close> is the type of
  encoded records.
\<close>

datatype 'r io =
    MakeDirs string
  | WriteFromGenerator "string list" "'r list"
  | PrintDownloadBytes string
  | ComputeDynamicProperties
  | WriteInfo string
  | Rename string string

record 'r world =
  paths :: "string list"
  io_log :: "'r io list"

definition gfile_exists :: "'r world \<Rightarrow> string \<Rightarrow> bool" where
  "gfile_exists w p = (\<exists>q \<in> set (paths w). q = p \<or> startswith q (p @ ''/''))"

definition child_name :: "string \<Rightarrow> string \<Rightarrow> string list" where
  "child_name d q =
     (if startswith q (d @ ''/'')
      then (let n = takeWhile (\<lambda>c. c \<noteq> CHR ''/'') (drop (length d + 1) q)
            in if n = [] then [] else [n])
      else [])"

definition gfile_listdir :: "'r world \<Rightarrow> string \<Rightarrow> string list" where
  "gfile_listdir w d = remdups (concat (map (child_name d) (paths w)))"

definition gfile_makedirs :: "string \<Rightarrow> 'r world \<Rightarrow> 'r world" where
  "gfile_makedirs p w = w\<lparr>paths := paths w @ [p], io_log := io_log w @ [MakeDirs p]\<rparr>"

definition gfile_rename :: "string \<Rightarrow> string \<Rightarrow> 'r world \<Rightarrow> 'r world" where
  "gfile_rename src dst w =
     w\<lparr>paths := map (\<lambda>q. if q = src then dst
                          else if startswith q (src @ ''/'') then dst @ drop (length src) q
                          else q) (paths w),
       io_log := io_log w @ [Rename src dst]\<rparr>"


section \<open>Splits, download configuration and the builder\<close>

text \<open>
  \<open>SplitInfo\<close>: \<open>split_name\<close> is the source's \<open>s.name\<close>. A \<open>SplitDict\<close> maps a split name to
  its \<open>SplitInfo\<close>, in insertion order.
\<close>

record SplitInfo =
  split_name :: string
  num_shards :: nat
  num_examples :: nat

type_synonym SplitDict = "(string \<times> SplitInfo) list"

text \<open>
  Modelled from the spec: \<open>splits_lib.Split.ALL\<close>, \<open>SplitDict.add\<close> and
  \<open>SplitDict.total_num_examples\<close>, whose code is not among the sources. Sections 3 and 4.3:
  the reserved "all" alias; \<open>add\<close> fails if the split name is that alias and otherwise
  inserts, overwriting any previous entry of the same name; \<open>total_num_examples\<close> adds up
  the examples of the splits. (Section 3 also calls a duplicate registration an error; the
  contract of the operation in section 4.3 is the one followed here.)
\<close>

definition Split_ALL :: string where
  "Split_ALL = ''all''"

definition SplitDict_add :: "SplitDict \<Rightarrow> SplitInfo \<Rightarrow> error + SplitDict" where
  "SplitDict_add split_dict s =
     (if split_name s = Split_ALL then Inl (ValueError ''Split all cannot be added.'')
      else Inr (AList.update (split_name s) s split_dict))"

definition total_num_examples :: "SplitDict \<Rightarrow> nat" where
  "total_num_examples split_dict = sum_list (map (\<lambda>kv. num_examples (snd kv)) split_dict)"

text \<open>
  A \<open>SplitGenerator\<close> carries its \<open>split_info_list\<close> and, in place of \<open>gen_kwargs\<close>, the
  examples that \<open>_generate_examples(**gen_kwargs)\<close> yields.
\<close>

record 'ex SplitGenerator =
  split_info_list :: "SplitInfo list"
  examples :: "'ex list"

datatype GenerateMode = FORCE_REDOWNLOAD | REUSE_CACHE_IF_EXISTS | REUSE_DATASET_IF_EXISTS

datatype ComputeStatsMode = SKIP | AUTO | FORCE

record DownloadConfig =
  download_mode :: GenerateMode
  compute_stats :: ComputeStatsMode
  max_examples_per_split :: "int option"
  extract_dir :: "string option"
  manual_dir :: "string option"

text \<open>
  The keyword arguments that \<open>_make_download_manager\<close> (lines 437-453) passes to
  \<open>download.DownloadManager\<close>.
\<close>

record DownloadManager_args =
  dm_dataset_name :: string
  dm_download_dir :: string
  dm_extract_dir :: string
  dm_manual_dir :: string
  dm_force_download :: bool
  dm_force_extraction :: bool

text \<open>
  The builder object. \<open>builder_name\<close> is \<open>self.name\<close>, \<open>builder_config_name\<close> the name of
  \<open>self._builder_config\<close> (\<open>None\<close> without a config), \<open>builder_version\<close> is \<open>self._version\<close>,
  \<open>info_version\<close>, \<open>info_splits\<close> and \<open>info_size_in_bytes\<close> are the fields of \<open>self.info\<close>.
  What the source takes from collaborators outside the sources is a field too:
  \<open>split_generators\<close> (the result of \<open>_split_generators\<close>), the feature encoder,
  \<open>naming.filepaths_for_dataset_split\<close> (arguments: dataset name, split, number of shards,
  data directory), the download manager's \<open>downloaded_size\<close>, the temporary sibling path
  \<open>incomplete_dir\<close> chooses, and the \<open>DownloadConfig()\<close> made when none is passed.
  \<open>DownloadManager_init\<close> is the constructor of \<open>download.DownloadManager\<close>, whose code is
  not among the sources: a parameter that, given its arguments and the disk, returns or
  raises and leaves a disk. Nothing is assumed about what it does.
\<close>

record ('ex, 'r) builder =
  builder_name :: string
  builder_config_name :: "string option"
  builder_version :: Version
  data_dir_root :: string
  data_dir :: string
  info_version :: Version
  info_splits :: SplitDict
  info_size_in_bytes :: int
  split_generators :: "'ex SplitGenerator list"
  encode_example :: "'ex \<Rightarrow> 'r"
  filepaths_for_dataset_split :: "string \<Rightarrow> string \<Rightarrow> nat \<Rightarrow> string \<Rightarrow> string list"
  downloaded_size :: int
  incomplete_path :: "string \<Rightarrow> string"
  default_download_config :: DownloadConfig
  DownloadManager_init :: "DownloadManager_args \<Rightarrow> 'r world \<Rightarrow> (error + unit) \<times> 'r world"

section \<open>\<open>DatasetBuilder._build_data_dir\<close>\<close>

text \<open>
  \<open>dataset_builder.py\<close>, lines 339-377. The inner \<open>_other_versions_on_disk\<close> keeps the
  directory names that parse as a version and sorts the pairs (version, name) in
  descending order. The function returns the path; the second component is what it
  hands to \<open>logging.warn\<close>. It only reads the backend.
\<close>

definition versions_of :: "string list \<Rightarrow> (Version \<times> string) list" where
  "versions_of dir_names =
     concat (map (\<lambda>dir_name. case Version_parse dir_name of
                                Inl e \<Rightarrow> []
                              | Inr v \<Rightarrow> [(v, dir_name)]) dir_names)"

definition other_versions_on_disk :: "'r world \<Rightarrow> string \<Rightarrow> (Version \<times> string) list" where
  "other_versions_on_disk w builder_data_dir =
     (if \<not> gfile_exists w builder_data_dir then []
      else rev (sort (versions_of (gfile_listdir w builder_data_dir))))"

definition warn_msg :: "Version \<Rightarrow> string \<Rightarrow> string \<Rightarrow> Version \<Rightarrow> string" where
  "warn_msg other_version n root cur_version =
     ''Found a different version '' @ Version_str other_version @ '' of dataset '' @ n @
     '' in data_dir '' @ root @ ''. Using currently defined version '' @
     Version_str cur_version @ ''.''"

definition builder_data_dir :: "('ex, 'r) builder \<Rightarrow> string" where
  "builder_data_dir b =
     (case builder_config_name b of
        None \<Rightarrow> os_path_join (data_dir_root b) (builder_name b)
      | Some config_name \<Rightarrow>
          os_path_join (os_path_join (data_dir_root b) (builder_name b)) config_name)"

definition build_data_dir :: "('ex, 'r) builder \<Rightarrow> 'r world \<Rightarrow> string \<times> string list" where
  "build_data_dir b w =
     (let version_data_dir = os_path_join (builder_data_dir b) (Version_str (builder_version b));
          version_dirs = other_versions_on_disk w (builder_data_dir b)
      in (version_data_dir,
          (case version_dirs of
             [] \<Rightarrow> []
           | (other_version, dir_name) # rest \<Rightarrow>
               if other_version \<noteq> builder_version b
               then [warn_msg other_version (builder_name b) (data_dir_root b) (builder_version b)]
               else [])))"

section \<open>\<open>GeneratorBasedBuilder._download_and_prepare\<close>\<close>

text \<open>
  \<open>dataset_builder.py\<close>, lines 625-670 and 710-734. \<open>write_from_generator\<close> of the file
  format adapter is outside the sources: it is the log entry that holds the output files
  and the records the generator hands over, and the files exist afterwards.
  \<open>add_split_infos\<close> is the inner loop over \<open>split_generator.split_info_list\<close>,
  \<open>generate_splits\<close> the loop over the split generators; an exception ends both.
  Messages of \<open>logging.info\<close> and \<open>logging.warn\<close> are left out here.
\<close>

definition build_split_filenames :: "('ex, 'r) builder \<Rightarrow> SplitInfo list \<Rightarrow> string list" where
  "build_split_filenames b infos =
     concat (map (\<lambda>split_info.
        filepaths_for_dataset_split b (builder_name b) (split_name split_info)
          (num_shards split_info) (data_dir b)) infos)"

definition write_from_generator :: "'r list \<Rightarrow> string list \<Rightarrow> 'r world \<Rightarrow> 'r world" where
  "write_from_generator records output_files w =
     w\<lparr>paths := paths w @ output_files,
       io_log := io_log w @ [WriteFromGenerator output_files records]\<rparr>"

definition Split_ALL_msg :: string where
  "Split_ALL_msg =
     ''tfds.Split.ALL is a special split keyword corresponding to the '' @
     ''union of all splits, so cannot be used as key in '' @
     ''._split_generator().''"

fun add_split_infos :: "SplitDict \<Rightarrow> SplitInfo list \<Rightarrow> error + SplitDict" where
  "add_split_infos split_dict [] = Inr split_dict"
| "add_split_infos split_dict (s # rest) =
     (if Split_ALL = split_name s then Inl (ValueError Split_ALL_msg)
      else (case SplitDict_add split_dict s of
              Inl e \<Rightarrow> Inl e
            | Inr split_dict' \<Rightarrow> add_split_infos split_dict' rest))"

definition write_split :: "('ex, 'r) builder \<Rightarrow> int option \<Rightarrow> 'ex SplitGenerator \<Rightarrow> 'r world \<Rightarrow> 'r world" where
  "write_split b max_examples split_generator w =
     write_from_generator
       (generator_fn (encode_example b) max_examples (examples split_generator))
       (build_split_filenames b (split_info_list split_generator)) w"

fun generate_splits ::
  "('ex, 'r) builder \<Rightarrow> int option \<Rightarrow> 'ex SplitGenerator list \<Rightarrow> SplitDict \<Rightarrow> 'r world \<Rightarrow>
   (error + SplitDict) \<times> 'r world" where
  "generate_splits b max_examples [] split_dict w = (Inr split_dict, w)"
| "generate_splits b max_examples (split_generator # rest) split_dict w =
     (case add_split_infos split_dict (split_info_list split_generator) of
        Inl e \<Rightarrow> (Inl e, w)
      | Inr split_dict' \<Rightarrow>
          generate_splits b max_examples rest split_dict'
            (write_split b max_examples split_generator w))"

text \<open>
  Modelled from the spec: \<open>info.update_splits_if_different\<close>, whose code is not among the
  sources. Section 4.4: the newly computed split dictionary wins and is recorded. It is the
  update of \<open>info_splits\<close> in the last line.
\<close>

definition GeneratorBasedBuilder_download_and_prepare ::
  "('ex, 'r) builder \<Rightarrow> int option \<Rightarrow> 'r world \<Rightarrow> (error + unit) \<times> ('ex, 'r) builder \<times> 'r world" where
  "GeneratorBasedBuilder_download_and_prepare b max_examples w =
     (let w1 = (if \<not> gfile_exists w (data_dir b) then gfile_makedirs (data_dir b) w else w)
      in case generate_splits b max_examples (split_generators b) [] w1 of
           (Inl e, w2) \<Rightarrow> (Inl e, b, w2)
         | (Inr split_dict, w2) \<Rightarrow> (Inr (), b\<lparr>info_splits := split_dict\<rparr>, w2))"

section \<open>\<open>DatasetBuilder.download_and_prepare\<close>\<close>

text \<open>
  \<open>dataset_builder.py\<close>, lines 180-240, 379-387 and 437-453. \<open>str_or a b\<close> is Python's
  \<open>a or b\<close> for an optional string \<open>a\<close>: \<open>None\<close> and the empty string give \<open>b\<close>.
  \<open>make_download_manager\<close> computes the three directories and calls the constructor;
  it runs after the reuse return and before the overwrite error, on every other path.
  \<open>log_download_bytes\<close> is the print of lines 379-387, a log entry that holds the data
  directory. \<open>info.compute_dynamic_properties\<close> and \<open>info.write_to_directory\<close> are log
  entries; \<open>finish_build\<close> is lines 228-240 and the exit of \<open>incomplete_dir\<close>.
\<close>

definition str_or :: "string option \<Rightarrow> string \<Rightarrow> string" where
  "str_or a b = (case a of None \<Rightarrow> b | Some s \<Rightarrow> if s = [] then b else s)"

definition make_download_manager ::
  "('ex, 'r) builder \<Rightarrow> string option \<Rightarrow> DownloadConfig \<Rightarrow> 'r world \<Rightarrow>
   (error + unit) \<times> 'r world" where
  "make_download_manager b download_dir download_config w =
     (let download_dir1 = str_or download_dir (os_path_join (data_dir_root b) ''downloads'');
          extract_dir1 = str_or (extract_dir download_config)
                           (os_path_join download_dir1 ''extracted'');
          manual_dir1 = str_or (manual_dir download_config)
                          (os_path_join download_dir1 ''manual'');
          manual_dir2 = os_path_join manual_dir1 (builder_name b)
      in DownloadManager_init b
           \<lparr>dm_dataset_name = builder_name b,
            dm_download_dir = download_dir1,
            dm_extract_dir = extract_dir1,
            dm_manual_dir = manual_dir2,
            dm_force_download = (download_mode download_config = FORCE_REDOWNLOAD),
            dm_force_extraction = (download_mode download_config = FORCE_REDOWNLOAD)\<rparr> w)"

definition log_download_bytes :: "('ex, 'r) builder \<Rightarrow> 'r world \<Rightarrow> 'r world" where
  "log_download_bytes b w = w\<lparr>io_log := io_log w @ [PrintDownloadBytes (data_dir b)]\<rparr>"

definition overwrite_msg :: "('ex, 'r) builder \<Rightarrow> string" where
  "overwrite_msg b =
     ''Trying to overwrite an existing dataset '' @ builder_name b @ '' at '' @ data_dir b @
     ''. A dataset with the same version '' @ Version_str (info_version b) @
     '' already exists. If the dataset has changed, please update the version number.''"

definition resolve_download_config :: "('ex, 'r) builder \<Rightarrow> DownloadConfig option \<Rightarrow> DownloadConfig" where
  "resolve_download_config b download_config =
     (case download_config of None \<Rightarrow> default_download_config b | Some c \<Rightarrow> c)"

definition skip_stats :: "DownloadConfig \<Rightarrow> ('ex, 'r) builder \<Rightarrow> bool" where
  "skip_stats cfg b =
     (compute_stats cfg = SKIP \<or>
      (compute_stats cfg = AUTO \<and> total_num_examples (info_splits b) \<noteq> 0))"

definition finish_build ::
  "DownloadConfig \<Rightarrow> string \<Rightarrow> ('ex, 'r) builder \<Rightarrow> 'r world \<Rightarrow> ('ex, 'r) builder \<times> 'r world" where
  "finish_build cfg final_data_dir b w =
     (let w1 = (if skip_stats cfg b then w
                else w\<lparr>io_log := io_log w @ [ComputeDynamicProperties]\<rparr>);
          b1 = b\<lparr>info_size_in_bytes := downloaded_size b\<rparr>;
          w2 = w1\<lparr>io_log := io_log w1 @ [WriteInfo (data_dir b1)]\<rparr>
      in (b1\<lparr>data_dir := final_data_dir\<rparr>, gfile_rename (data_dir b1) final_data_dir w2))"

text \<open>
  Modelled from the spec: \<open>file_format_adapter.incomplete_dir\<close>, whose code is not among the
  sources. Section 4.4: the build writes into a temporary sibling directory, which is
  renamed into place on success and never promoted on failure (here it is left where it
  is). The directory is made before \<open>_download_and_prepare\<close> runs, and \<open>self._data_dir\<close> is
  the temporary directory while it runs.
\<close>

definition build_in_incomplete_dir ::
  "DownloadConfig \<Rightarrow> ('ex, 'r) builder \<Rightarrow> 'r world \<Rightarrow>
   (error + unit) \<times> ('ex, 'r) builder \<times> 'r world" where
  "build_in_incomplete_dir cfg b w =
     (let tmp_data_dir = incomplete_path b (data_dir b);
          w1 = gfile_makedirs tmp_data_dir w
      in case GeneratorBasedBuilder_download_and_prepare
                (b\<lparr>data_dir := tmp_data_dir\<rparr>) (max_examples_per_split cfg) w1 of
           (Inl e, b2, w2) \<Rightarrow> (Inl e, b2\<lparr>data_dir := data_dir b\<rparr>, w2)
         | (Inr u, b2, w2) \<Rightarrow>
             (case finish_build cfg (data_dir b) b2 w2 of
                (b3, w3) \<Rightarrow> (Inr (), b3, w3)))"

definition DatasetBuilder_download_and_prepare ::
  "string option \<Rightarrow> DownloadConfig option \<Rightarrow> ('ex, 'r) builder \<Rightarrow> 'r world \<Rightarrow>
   (error + unit) \<times> ('ex, 'r) builder \<times> 'r world" where
  "DatasetBuilder_download_and_prepare download_dir download_config b w =
     (let cfg = resolve_download_config b download_config;
          data_exists = gfile_exists w (data_dir b)
      in if data_exists \<and> download_mode cfg = REUSE_DATASET_IF_EXISTS then (Inr (), b, w)
         else
           (case make_download_manager b download_dir cfg w of
              (Inl e, w0) \<Rightarrow> (Inl e, b, w0)
            | (Inr dl_manager, w0) \<Rightarrow>
                if data_exists then (Inl (ValueError (overwrite_msg b)), b, w0)
                else build_in_incomplete_dir cfg b (log_download_bytes b w0)))"

section \<open>What a build writes\<close>

text \<open>
  \<open>write_event\<close> is the log entry of one split generator, \<open>handed_records\<close> the record
  sequences that a log hands to the shard writer, in order. \<open>declares_ALL\<close> holds of a split
  generator that names the reserved split; \<open>prepared_dir\<close> is the world after lines 628-629.
\<close>

definition write_event :: "('ex, 'r) builder \<Rightarrow> int option \<Rightarrow> 'ex SplitGenerator \<Rightarrow> 'r io" where
  "write_event b m g =
     WriteFromGenerator (build_split_filenames b (split_info_list g))
       (generator_fn (encode_example b) m (examples g))"

fun handed_records :: "'r io list \<Rightarrow> 'r list list" where
  "handed_records [] = []"
| "handed_records (WriteFromGenerator fs rs # l) = rs # handed_records l"
| "handed_records (e # l) = handed_records l"

definition declares_ALL :: "'ex SplitGenerator \<Rightarrow> bool" where
  "declares_ALL g = (\<exists>s \<in> set (split_info_list g). split_name s = Split_ALL)"

definition prepared_dir :: "('ex, 'r) builder \<Rightarrow> 'r world \<Rightarrow> 'r world" where
  "prepared_dir b w = (if gfile_exists w (data_dir b) then w else gfile_makedirs (data_dir b) w)"

section \<open>The checksum registry: Python dictionaries and text\<close>

text \<open>
  A dictionary is an association list with distinct keys, in insertion order:
  \<open>d[k] = v\<close> is \<open>AList.update k v d\<close>, \<open>d.update(other)\<close> is \<open>dict_update d other\<close>, and
  \<open>a == b\<close> on dictionaries holds when both have the same items (\<open>dict_eq\<close>).
  \<open>sizes_checksums\<close> is the type of \<open>{url: (size, checksum)}\<close>.
\<close>

type_synonym sizes_checksums = "(string \<times> (int \<times> string)) list"

definition dict_update :: "('k \<times> 'v) list \<Rightarrow> ('k \<times> 'v) list \<Rightarrow> ('k \<times> 'v) list" where
  "dict_update d other = fold (\<lambda>kv. AList.update (fst kv) (snd kv)) other d"

definition dict_eq :: "('k \<times> 'v) list \<Rightarrow> ('k \<times> 'v) list \<Rightarrow> bool" where
  "dict_eq a b = (set a = set b)"

text \<open>
  \<open>s.rsplit(sep, maxsplit)\<close> cuts at the last \<open>maxsplit\<close> occurrences of \<open>sep\<close>, from the right.
  \<open>str_int\<close> is \<open>str\<close> of an int. \<open>py_int\<close> is \<open>int(s)\<close> of Python 3 on a string of ASCII
  characters: white space around the number is dropped, a sign may come first, and single
  underscores may stand between digits; anything else raises \<open>ValueError\<close>.
\<close>

fun rsplit :: "char \<Rightarrow> nat \<Rightarrow> string \<Rightarrow> string list" where
  "rsplit sep 0 s = [s]"
| "rsplit sep (Suc n) s =
     (if sep \<in> set s
      then rsplit sep n (rev (tl (dropWhile (\<lambda>c. c \<noteq> sep) (rev s)))) @
           [rev (takeWhile (\<lambda>c. c \<noteq> sep) (rev s))]
      else [s])"

definition str_int :: "int \<Rightarrow> string" where
  "str_int i = (if i < 0 then ''-'' @ str_nat (nat (- i)) else str_nat (nat i))"

definition isspace :: "char \<Rightarrow> bool" where
  "isspace c = (c \<in> set [CHR 0x09, CHR 0x0A, CHR 0x0B, CHR 0x0C, CHR 0x0D,
                         CHR 0x1C, CHR 0x1D, CHR 0x1E, CHR 0x1F, CHR 0x20])"

definition strip :: "string \<Rightarrow> string" where
  "strip s = rev (dropWhile isspace (rev (dropWhile isspace s)))"

definition int_literal :: "string \<Rightarrow> bool" where
  "int_literal body =
     list_all (\<lambda>digits. digits \<noteq> [] \<and> list_all isdigit digits) (split (CHR ''_'') body)"

definition py_int :: "string \<Rightarrow> error + int" where
  "py_int s =
     (let t = strip s;
          negative = startswith t ''-'';
          body = (if startswith t ''-'' \<or> startswith t ''+'' then tl t else t)
      in if int_literal body
         then (let n = int (nat_of_digits (filter (\<lambda>c. c \<noteq> CHR ''_'') body))
               in Inr (if negative then - n else n))
         else Inl (ValueError (''invalid literal for int() with base 10: '' @ s)))"

section \<open>The checksum registry: state\<close>

text \<open>
  \<open>checksums_management.py\<close>. The state of the module and of what it reads:
  \<open>walk\<close> is \<open>tf.io.gfile.walk\<close> of the storage backend, which yields for a directory and every
  directory below it a triple (directory name, names of its subdirectories, names of its
  files), and nothing for a directory that does not exist; \<open>files\<close> maps a path to the text
  of its file; \<open>CHECKSUM_DIRS\<close>, \<open>REGISTER_CHECKSUMS\<close> and \<open>ALL_SIZE_CHECKSUMS\<close> are the
  module's globals.
\<close>

text \<open>
  Modelled from the spec: \<open>utils.memoize\<close>, whose code is not among the sources. Sections 5
  and 9 of the spec: a process-wide memoized cache, never invalidated. A memoized function
  keeps the value of its first return for each argument and returns it from then on; a
  call that raises stores nothing. The three \<open>memo\<close> fields of the state are the caches of
  the three decorated functions.
\<close>

record checksums_state =
  walk :: "string \<Rightarrow> (string \<times> string list \<times> string list) list"
  files :: "(string \<times> string) list"
  CHECKSUM_DIRS :: "string list"
  REGISTER_CHECKSUMS :: bool
  ALL_SIZE_CHECKSUMS :: sizes_checksums
  memo_get_dataset_to_path :: "(string \<times> string) list option"
  memo_get_sizes_checksums :: "(string \<times> sizes_checksums) list"
  memo_get_all_sizes_checksums :: bool

definition set_register_checksums :: "bool \<Rightarrow> checksums_state \<Rightarrow> checksums_state" where
  "set_register_checksums register st = st\<lparr>REGISTER_CHECKSUMS := register\<rparr>"

section \<open>\<open>_get_dataset_to_path\<close> and \<open>_get_path\<close>\<close>

text \<open>
  Lines 45-68. The comprehension of lines 50-51 takes the third component of every triple
  of \<open>walk\<close> whose directory is \<open>dir_path\<close>: each element of \<open>fnames\<close> is the list of the
  file names of the directory, not a file name. The loop of line 52 therefore binds
  \<open>fname\<close> to a list, and \<open>fname.endswith\<close> of line 53 raises \<open>AttributeError\<close> on its first
  round; lines 55-57 are never reached. When \<open>walk\<close> yields no triple for any of the
  directories the loop bodies do not run and the dictionary stays empty.
\<close>

definition fnames_of ::
  "(string \<times> string list \<times> string list) list \<Rightarrow> string \<Rightarrow> string list list" where
  "fnames_of triples dir_path =
     concat (map (\<lambda>t. case t of (dir', subdirs, fname) \<Rightarrow>
                         if dir_path = dir' then [fname] else []) triples)"

definition list_endswith_msg :: string where
  "list_endswith_msg =
     [CHR 0x27] @ ''list'' @ [CHR 0x27] @ '' object has no attribute '' @
     [CHR 0x27] @ ''endswith'' @ [CHR 0x27]"

fun scan_checksum_dirs ::
  "checksums_state \<Rightarrow> string list \<Rightarrow> (string \<times> string) list \<Rightarrow> error + (string \<times> string) list" where
  "scan_checksum_dirs st [] dataset2path = Inr dataset2path"
| "scan_checksum_dirs st (dir_path # dirs) dataset2path =
     (case fnames_of (walk st dir_path) dir_path of
        [] \<Rightarrow> scan_checksum_dirs st dirs dataset2path
      | fname # others \<Rightarrow> Inl (AttributeError list_endswith_msg))"

definition get_dataset_to_path ::
  "checksums_state \<Rightarrow> (error + (string \<times> string) list) \<times> checksums_state" where
  "get_dataset_to_path st =
     (case memo_get_dataset_to_path st of
        Some dataset2path \<Rightarrow> (Inr dataset2path, st)
      | None \<Rightarrow>
          (case scan_checksum_dirs st (CHECKSUM_DIRS st) [] of
             Inl e \<Rightarrow> (Inl e, st)
           | Inr dataset2path \<Rightarrow>
               (Inr dataset2path, st\<lparr>memo_get_dataset_to_path := Some dataset2path\<rparr>)))"

fun join_str :: "string \<Rightarrow> string list \<Rightarrow> string" where
  "join_str sep [] = []"
| "join_str sep [x] = x"
| "join_str sep (x # y # ys) = x @ sep @ join_str sep (y # ys)"

definition no_checksums_msg :: "string \<Rightarrow> string list \<Rightarrow> string" where
  "no_checksums_msg dataset_name dirs =
     ''No checksums file could be find for dataset '' @ dataset_name @
     ''. Please create one in one of: '' @ join_str '', '' dirs"

definition get_path :: "string \<Rightarrow> checksums_state \<Rightarrow> (error + string) \<times> checksums_state" where
  "get_path dataset_name st =
     (case get_dataset_to_path st of
        (Inl e, st1) \<Rightarrow> (Inl e, st1)
      | (Inr dataset2path, st1) \<Rightarrow>
          (case map_of dataset2path dataset_name of
             Some path \<Rightarrow>
               if path \<noteq> [] then (Inr path, st1)
               else (Inl (AssertionError (no_checksums_msg dataset_name (CHECKSUM_DIRS st1))), st1)
           | None \<Rightarrow>
               (Inl (AssertionError (no_checksums_msg dataset_name (CHECKSUM_DIRS st1))), st1)))"

section \<open>\<open>_get_sizes_checksums\<close>\<close>

text \<open>
  Lines 71-87. \<open>read_file\<close> fails on a path without a file. \<open>parse_lines\<close> is the loop over
  the lines: an empty line is skipped, a line with fewer than two spaces cannot be unpacked
  into three names, and \<open>int(size)\<close> may raise. \<open>parse_sizes_checksums\<close> is the body of the
  function on the text of a file; \<open>get_sizes_checksums\<close> is the memoized function.
\<close>

definition read_file :: "string \<Rightarrow> checksums_state \<Rightarrow> error + string" where
  "read_file path st =
     (case map_of (files st) path of
        None \<Rightarrow> Inl (NotFoundError path)
      | Some content \<Rightarrow> Inr content)"

fun parse_lines :: "string list \<Rightarrow> sizes_checksums \<Rightarrow> error + sizes_checksums" where
  "parse_lines [] checksums = Inr checksums"
| "parse_lines (line # rest) checksums =
     (if line = [] then parse_lines rest checksums
      else (case rsplit (CHR '' '') 2 line of
              [url, size_text, checksum] \<Rightarrow>
                (case py_int size_text of
                   Inl e \<Rightarrow> Inl e
                 | Inr n \<Rightarrow> parse_lines rest (AList.update url (n, checksum) checksums))
            | _ \<Rightarrow> Inl (ValueError ''not enough values to unpack (expected 3)'')))"

definition parse_sizes_checksums :: "string \<Rightarrow> error + sizes_checksums" where
  "parse_sizes_checksums content = parse_lines (split (CHR 0x0A) content) []"

definition get_sizes_checksums ::
  "string \<Rightarrow> checksums_state \<Rightarrow> (error + sizes_checksums) \<times> checksums_state" where
  "get_sizes_checksums checksums_path st =
     (case map_of (memo_get_sizes_checksums st) checksums_path of
        Some checksums \<Rightarrow> (Inr checksums, st)
      | None \<Rightarrow>
          (case read_file checksums_path st of
             Inl e \<Rightarrow> (Inl e, st)
           | Inr content \<Rightarrow>
               (case parse_sizes_checksums content of
                  Inl e \<Rightarrow> (Inl e, st)
                | Inr checksums \<Rightarrow>
                    (Inr checksums,
                     st\<lparr>memo_get_sizes_checksums :=
                          AList.update checksums_path checksums (memo_get_sizes_checksums st)\<rparr>))))"

section \<open>\<open>get_all_sizes_checksums\<close>\<close>

text \<open>
  Lines 90-101. \<open>first_conflict\<close> is the inner loop over \<open>data.items()\<close>: the first URL that
  the global dictionary holds with another value. \<open>merge_checksum_files\<close> is the loop over
  the paths. The memoized function returns the global dictionary itself, so a later call
  returns what that dictionary holds then.
\<close>

fun first_conflict :: "sizes_checksums \<Rightarrow> sizes_checksums \<Rightarrow> string option" where
  "first_conflict [] all_checksums = None"
| "first_conflict ((url, size_checksum) # rest) all_checksums =
     (case map_of all_checksums url of
        Some registered \<Rightarrow>
          if registered \<noteq> size_checksum then Some url else first_conflict rest all_checksums
      | None \<Rightarrow> first_conflict rest all_checksums)"

definition distinct_tuples_msg :: "string \<Rightarrow> string" where
  "distinct_tuples_msg url =
     ''URL '' @ url @ '' is registered with 2+ distinct size/checksum tuples.''"

fun merge_checksum_files ::
  "string list \<Rightarrow> checksums_state \<Rightarrow> (error + unit) \<times> checksums_state" where
  "merge_checksum_files [] st = (Inr (), st)"
| "merge_checksum_files (path # rest) st =
     (case get_sizes_checksums path st of
        (Inl e, st1) \<Rightarrow> (Inl e, st1)
      | (Inr data, st1) \<Rightarrow>
          (case first_conflict data (ALL_SIZE_CHECKSUMS st1) of
             Some url \<Rightarrow> (Inl (AssertionError (distinct_tuples_msg url)), st1)
           | None \<Rightarrow>
               merge_checksum_files rest
                 (st1\<lparr>ALL_SIZE_CHECKSUMS := dict_update (ALL_SIZE_CHECKSUMS st1) data\<rparr>)))"

definition get_all_sizes_checksums ::
  "checksums_state \<Rightarrow> (error + sizes_checksums) \<times> checksums_state" where
  "get_all_sizes_checksums st =
     (if memo_get_all_sizes_checksums st then (Inr (ALL_SIZE_CHECKSUMS st), st)
      else (case get_dataset_to_path st of
              (Inl e, st1) \<Rightarrow> (Inl e, st1)
            | (Inr dataset2path, st1) \<Rightarrow>
                (case merge_checksum_files (map snd dataset2path) st1 of
                   (Inl e, st2) \<Rightarrow> (Inl e, st2)
                 | (Inr u, st2) \<Rightarrow>
                     (Inr (ALL_SIZE_CHECKSUMS st2),
                      st2\<lparr>memo_get_all_sizes_checksums := True\<rparr>))))"

section \<open>\<open>maybe_store_checksums\<close>\<close>

text \<open>
  Lines 104-140. \<open>checksums_text\<close> is what lines 138-140 write: one line
  \<open>url size checksum\<close> for each item of \<open>sorted(new_data.items())\<close>, the items in the order of
  Python's tuples and strings. \<open>store_checksums_at\<close> is the function from line 123 on,
  for the path that \<open>_get_path\<close> returned.
\<close>

definition checksums_line :: "string \<times> int \<times> string \<Rightarrow> string" where
  "checksums_line item =
     (case item of (url, size', checksum) \<Rightarrow>
        url @ '' '' @ str_int size' @ '' '' @ checksum @ [CHR 0x0A])"

definition checksums_text :: "sizes_checksums \<Rightarrow> string" where
  "checksums_text new_data = concat (map checksums_line (sort new_data))"

definition register_first_msg :: string where
  "register_first_msg =
     ''You must call `set_register_checksums(True)` first. When running '' @
     ''`download_and_prepare` while iterating on a dataset, use '' @
     ''--store_checksums flag.''"

definition store_checksums_at ::
  "string \<Rightarrow> sizes_checksums \<Rightarrow> checksums_state \<Rightarrow> (error + unit) \<times> checksums_state" where
  "store_checksums_at path sizes_checksums st =
     (case get_sizes_checksums path st of
        (Inl e, st1) \<Rightarrow> (Inl e, st1)
      | (Inr original_data, st1) \<Rightarrow>
          (let new_data = dict_update original_data sizes_checksums
           in if dict_eq original_data new_data then (Inr (), st1)
              else if \<not> REGISTER_CHECKSUMS st1 then (Inl (AssertionError register_first_msg), st1)
              else (Inr (),
                    st1\<lparr>ALL_SIZE_CHECKSUMS := dict_update (ALL_SIZE_CHECKSUMS st1) sizes_checksums,
                        files := AList.update path (checksums_text new_data) (files st1)\<rparr>)))"

definition maybe_store_checksums ::
  "string \<Rightarrow> sizes_checksums \<Rightarrow> checksums_state \<Rightarrow> (error + unit) \<times> checksums_state" where
  "maybe_store_checksums dataset_name sizes_checksums st =
     (case get_path dataset_name st of
        (Inl e, st1) \<Rightarrow> (Inl e, st1)
      | (Inr path, st1) \<Rightarrow> store_checksums_at path sizes_checksums st1)"

section \<open>Lines of a checksum file\<close>

text \<open>
  \<open>line_ok\<close> holds of an item that one line of the file can hold: no newline in the URL,
  no space and no newline in the checksum. \<open>line_body\<close> is the line without its newline.
\<close>

definition line_ok :: "string \<times> int \<times> string \<Rightarrow> bool" where
  "line_ok item =
     (case item of (url, size', checksum) \<Rightarrow>
        CHR 0x0A \<notin> set url \<and> CHR '' '' \<notin> set checksum \<and> CHR 0x0A \<notin> set checksum)"

definition line_body :: "string \<times> int \<times> string \<Rightarrow> string" where
  "line_body item =
     (case item of (url, size', checksum) \<Rightarrow>
        url @ '' '' @ str_int size' @ '' '' @ checksum)"

section \<open>What the merge of the checksum files computes\<close>

text \<open>
  \<open>file_checksums\<close> is what a first call of \<open>_get_sizes_checksums\<close> returns for a path;
  \<open>merge_dicts\<close> is the loop of \<open>get_all_sizes_checksums\<close> on the dictionaries of the
  files alone; \<open>agrees a d\<close> holds when no URL has one tuple in \<open>a\<close> and another in \<open>d\<close>.
\<close>

definition file_checksums :: "checksums_state \<Rightarrow> string \<Rightarrow> error + sizes_checksums" where
  "file_checksums st path =
     (case read_file path st of Inl e \<Rightarrow> Inl e | Inr content \<Rightarrow> parse_sizes_checksums content)"

fun merge_dicts :: "sizes_checksums list \<Rightarrow> sizes_checksums \<Rightarrow> string + sizes_checksums" where
  "merge_dicts [] all_checksums = Inr all_checksums"
| "merge_dicts (data # rest) all_checksums =
     (case first_conflict data all_checksums of
        Some url \<Rightarrow> Inl url
      | None \<Rightarrow> merge_dicts rest (dict_update all_checksums data))"

definition agrees :: "sizes_checksums \<Rightarrow> sizes_checksums \<Rightarrow> bool" where
  "agrees a d = (\<forall>url v v'. map_of a url = Some v \<and> map_of d url = Some v' \<longrightarrow> v = v')"

section \<open>Examples\<close>

text \<open>
  A builder of the dataset \<open>mnist\<close> at version 2.0.0 under \<open>/data\<close>, with one split generator
  for \<open>train\<close> and a download manager whose constructor makes its download and extraction
  directories; a second generator that declares the reserved split; and three disks.
\<close>

definition example_filepaths :: "string \<Rightarrow> string \<Rightarrow> nat \<Rightarrow> string \<Rightarrow> string list" where
  "example_filepaths dataset_name sp n dir =
     map (\<lambda>i. os_path_join dir (dataset_name @ ''-'' @ sp @ ''-'' @ str_nat i)) [0..<n]"

definition reuse_config :: DownloadConfig where
  "reuse_config = \<lparr>download_mode = REUSE_DATASET_IF_EXISTS, compute_stats = AUTO,
                    max_examples_per_split = None, extract_dir = None, manual_dir = None\<rparr>"

definition force_config :: DownloadConfig where
  "force_config = \<lparr>download_mode = FORCE_REDOWNLOAD, compute_stats = AUTO,
                    max_examples_per_split = None, extract_dir = None, manual_dir = None\<rparr>"

definition example_DownloadManager ::
  "DownloadManager_args \<Rightarrow> nat world \<Rightarrow> (error + unit) \<times> nat world" where
  "example_DownloadManager args w =
     (Inr (), gfile_makedirs (dm_extract_dir args) (gfile_makedirs (dm_download_dir args) w))"

definition train_generator :: "nat SplitGenerator" where
  "train_generator =
     \<lparr>split_info_list = [\<lparr>split_name = ''train'', num_shards = 1, num_examples = 0\<rparr>],
      examples = [1, 2, 3]\<rparr>"

definition all_generator :: "nat SplitGenerator" where
  "all_generator =
     \<lparr>split_info_list = [\<lparr>split_name = ''all'', num_shards = 1, num_examples = 0\<rparr>],
      examples = [4]\<rparr>"

definition mnist :: "(nat, nat) builder" where
  "mnist = \<lparr>builder_name = ''mnist'', builder_config_name = None, builder_version = (2, 0, 0),
     data_dir_root = ''/data'', data_dir = ''/data/mnist/2.0.0'', info_version = (2, 0, 0),
     info_splits = [], info_size_in_bytes = 0, split_generators = [train_generator],
     encode_example = Suc, filepaths_for_dataset_split = example_filepaths,
     downloaded_size = 7, incomplete_path = (\<lambda>d. d @ ''.incomplete''),
     default_download_config = reuse_config,
     DownloadManager_init = example_DownloadManager\<rparr>"

definition mnist_with_all :: "(nat, nat) builder" where
  "mnist_with_all = mnist\<lparr>split_generators := [train_generator, all_generator]\<rparr>"

definition empty_disk :: "nat world" where
  "empty_disk = \<lparr>paths = [], io_log = []\<rparr>"

definition disk_v1 :: "nat world" where
  "disk_v1 = \<lparr>paths = [''/data/mnist/1.0.0/dataset_info.json''], io_log = []\<rparr>"

definition disk_v1_v2 :: "nat world" where
  "disk_v1_v2 = \<lparr>paths = [''/data/mnist/1.0.0/dataset_info.json'',
                           ''/data/mnist/2.0.0/dataset_info.json''], io_log = []\<rparr>"

text \<open>
  A registry at import time: one checksum directory that holds the file of \<open>mnist\<close> with one
  entry, whose URL has a space inside; and the same registry in registration mode.
\<close>

definition fresh_registry :: checksums_state where
  "fresh_registry =
     \<lparr>walk = (\<lambda>top. if top = ''/tfds/url_checksums''
                     then [(''/tfds/url_checksums'', [], [''mnist.txt''])] else []),
      files = [(''/tfds/url_checksums/mnist.txt'', ''http://a.org/x y 10 abc\<newline>'')],
      CHECKSUM_DIRS = [''/tfds/url_checksums''],
      REGISTER_CHECKSUMS = False,
      ALL_SIZE_CHECKSUMS = [],
      memo_get_dataset_to_path = None,
      memo_get_sizes_checksums = [],
      memo_get_all_sizes_checksums = False\<rparr>"

definition registering_registry :: checksums_state where
  "registering_registry = set_register_checksums True fresh_registry"

section \<open>Lemmas: the generator and the build\<close>

lemma generator_loop_capped:
  "0 < n \<Longrightarrow> 0 \<le> i \<Longrightarrow>
   generator_loop enc (Some n) i exs = map enc (take (nat (n - i)) exs)"
proof (induction exs arbitrary: i)
  case Nil
  then show ?case by simp
next
  case (Cons ex exs)
  show ?case
  proof (cases "n \<le> i")
    case True
    with Cons.prems show ?thesis by (simp add: cap_reached_def truthy_int_def)
  next
    case False
    then have "nat (n - i) = Suc (nat (n - (i + 1)))" by simp
    with False Cons show ?thesis by (simp add: cap_reached_def truthy_int_def)
  qed
qed

lemma generator_loop_uncapped:
  "\<not> truthy_int m \<Longrightarrow> generator_loop enc m i exs = map enc exs"
  by (induction exs arbitrary: i) (simp_all add: cap_reached_def)

lemma generator_loop_negative:
  "n < 0 \<Longrightarrow> 0 \<le> i \<Longrightarrow> generator_loop enc (Some n) i exs = []"
  by (cases exs) (simp_all add: cap_reached_def truthy_int_def)

lemma generator_fn_cases:
  "generator_fn enc m exs =
     (case m of None \<Rightarrow> map enc exs
      | Some n \<Rightarrow> if n = 0 then map enc exs
                  else if 0 < n then map enc (take (nat n) exs) else [])"
  using generator_loop_capped[of _ 0 enc exs] generator_loop_uncapped[of m enc 0 exs]
    generator_loop_negative[of _ 0 enc exs]
  by (auto simp: generator_fn_def truthy_int_def split: option.splits)

lemma take_min_length: "take (min n (length xs)) xs = take n xs"
  by (simp add: min_def)

lemma io_log_write_split: "io_log (write_split b m g w) = io_log w @ [write_event b m g]"
  by (simp add: write_split_def write_from_generator_def write_event_def)

lemma io_log_fold_write_split:
  "io_log (fold (write_split b m) gs w) = io_log w @ map (write_event b m) gs"
  by (induction gs arbitrary: w) (simp_all add: io_log_write_split)

lemma handed_records_append:
  "handed_records (xs @ ys) = handed_records xs @ handed_records ys"
  by (induction xs rule: handed_records.induct) auto

lemma handed_records_events:
  "handed_records (map (write_event b m) gs) =
   map (\<lambda>g. generator_fn (encode_example b) m (examples g)) gs"
  by (induction gs) (auto simp: write_event_def)

lemma handed_records_prepared:
  "handed_records (io_log (prepared_dir b w)) = handed_records (io_log w)"
  by (simp add: prepared_dir_def gfile_makedirs_def handed_records_append)

lemma add_split_infos_reserved:
  "\<exists>s \<in> set infos. split_name s = Split_ALL \<Longrightarrow>
   add_split_infos sd infos = Inl (ValueError Split_ALL_msg)"
  by (induction infos arbitrary: sd) (auto simp: SplitDict_add_def)

lemma add_split_infos_plain:
  "\<not> (\<exists>s \<in> set infos. split_name s = Split_ALL) \<Longrightarrow>
   \<exists>sd'. add_split_infos sd infos = Inr sd'"
  by (induction infos arbitrary: sd) (auto simp: SplitDict_add_def)

lemma generate_splits_world:
  "snd (generate_splits b m gs sd w) =
     fold (write_split b m) (takeWhile (\<lambda>g. \<not> declares_ALL g) gs) w"
proof (induction gs arbitrary: sd w)
  case Nil
  then show ?case by simp
next
  case (Cons g gs)
  show ?case
  proof (cases "declares_ALL g")
    case True
    then show ?thesis
      using add_split_infos_reserved[of "split_info_list g" sd]
      by (auto simp: declares_ALL_def)
  next
    case False
    then obtain sd' where "add_split_infos sd (split_info_list g) = Inr sd'"
      using add_split_infos_plain[of "split_info_list g" sd] by (auto simp: declares_ALL_def)
    with False Cons.IH show ?thesis by simp
  qed
qed

lemma generate_splits_reserved:
  "\<exists>g \<in> set gs. declares_ALL g \<Longrightarrow>
   fst (generate_splits b m gs sd w) = Inl (ValueError Split_ALL_msg)"
proof (induction gs arbitrary: sd w)
  case Nil
  then show ?case by simp
next
  case (Cons g gs)
  show ?case
  proof (cases "declares_ALL g")
    case True
    then show ?thesis
      using add_split_infos_reserved[of "split_info_list g" sd]
      by (auto simp: declares_ALL_def)
  next
    case False
    then obtain sd' where "add_split_infos sd (split_info_list g) = Inr sd'"
      using add_split_infos_plain[of "split_info_list g" sd] by (auto simp: declares_ALL_def)
    with False Cons show ?thesis by simp
  qed
qed

lemma download_and_prepare_unfold:
  "GeneratorBasedBuilder_download_and_prepare b m w =
     (case generate_splits b m (split_generators b) [] (prepared_dir b w) of
        (Inl e, w2) \<Rightarrow> (Inl e, b, w2)
      | (Inr split_dict, w2) \<Rightarrow> (Inr (), b\<lparr>info_splits := split_dict\<rparr>, w2))"
  by (simp add: GeneratorBasedBuilder_download_and_prepare_def prepared_dir_def)

lemma download_and_prepare_world:
  "snd (snd (GeneratorBasedBuilder_download_and_prepare b m w)) =
   fold (write_split b m) (takeWhile (\<lambda>g. \<not> declares_ALL g) (split_generators b))
     (prepared_dir b w)"
proof -
  obtain r w2 where g: "generate_splits b m (split_generators b) [] (prepared_dir b w) = (r, w2)"
    by (cases "generate_splits b m (split_generators b) [] (prepared_dir b w)")
  have "w2 = fold (write_split b m) (takeWhile (\<lambda>g. \<not> declares_ALL g) (split_generators b))
      (prepared_dir b w)"
    using generate_splits_world[of b m "split_generators b" "[]" "prepared_dir b w"] g by simp
  with g show ?thesis
    by (cases r) (simp_all add: download_and_prepare_unfold)
qed

lemma add_split_infos_error:
  "add_split_infos sd infos = Inl e \<Longrightarrow> e = ValueError Split_ALL_msg"
  by (induction infos arbitrary: sd) (auto simp: SplitDict_add_def split: if_splits sum.splits)

lemma generate_splits_error:
  "fst (generate_splits b m gs sd w) = Inl e \<Longrightarrow> e = ValueError Split_ALL_msg"
proof (induction gs arbitrary: sd w)
  case Nil
  then show ?case by simp
next
  case (Cons g gs)
  show ?case
  proof (cases "add_split_infos sd (split_info_list g)")
    case (Inl e')
    with Cons.prems show ?thesis using add_split_infos_error by auto
  next
    case (Inr sd')
    with Cons show ?thesis by simp
  qed
qed

lemma download_and_prepare_error:
  assumes "fst (GeneratorBasedBuilder_download_and_prepare b m w) = Inl e"
  shows "e = ValueError Split_ALL_msg"
proof -
  obtain r w2 where g: "generate_splits b m (split_generators b) [] (prepared_dir b w) = (r, w2)"
    by (cases "generate_splits b m (split_generators b) [] (prepared_dir b w)")
  with assms have "r = Inl e" by (cases r) (simp_all add: download_and_prepare_unfold)
  then show ?thesis using generate_splits_error[of b m "split_generators b" "[]" "prepared_dir b w" e] g
    by simp
qed

lemma overwrite_msg_other: "ValueError Split_ALL_msg \<noteq> ValueError (overwrite_msg b)"
  by (simp add: Split_ALL_msg_def overwrite_msg_def)

subsection \<open>Versions on disk\<close>

lemma in_versions_of:
  "(v, n) \<in> set (versions_of names) \<longleftrightarrow> n \<in> set names \<and> Version_parse n = Inr v"
proof (induction names)
  case Nil
  then show ?case by (simp add: versions_of_def)
next
  case (Cons a names)
  have "versions_of (a # names) =
      (case Version_parse a of Inl e \<Rightarrow> [] | Inr u \<Rightarrow> [(u, a)]) @ versions_of names"
    by (simp add: versions_of_def)
  with Cons show ?case by (cases "Version_parse a") auto
qed

lemma versions_of_set:
  "fst ` set (versions_of names) = {v. \<exists>n \<in> set names. Version_parse n = Inr v}"
proof (intro set_eqI iffI)
  fix v assume "v \<in> fst ` set (versions_of names)"
  then obtain n where "(v, n) \<in> set (versions_of names)" by auto
  then show "v \<in> {v. \<exists>n \<in> set names. Version_parse n = Inr v}"
    by (auto simp: in_versions_of)
next
  fix v assume "v \<in> {v. \<exists>n \<in> set names. Version_parse n = Inr v}"
  then obtain n where "(v, n) \<in> set (versions_of names)"
    by (auto simp: in_versions_of)
  then show "v \<in> fst ` set (versions_of names)" by force
qed

lemma last_sorted_Max:
  fixes xs :: "('a::linorder) list"
  assumes "sorted xs" "xs \<noteq> []"
  shows "last xs = Max (set xs)"
proof -
  have "\<forall>x \<in> set xs. x \<le> last xs"
    using assms by (induction xs) auto
  moreover have "last xs \<in> set xs" using assms by simp
  ultimately show ?thesis by (intro Max_eqI[symmetric]) auto
qed

lemma fst_Max_lex:
  fixes S :: "('a::linorder \<times> 'b::linorder) set"
  assumes "finite S" "S \<noteq> {}"
  shows "fst (Max S) = Max (fst ` S)"
proof -
  have "mono (fst :: 'a \<times> 'b \<Rightarrow> 'a)"
    by (auto simp: mono_def less_eq_prod_def)
  then show ?thesis using assms by (rule mono_Max_commute)
qed

lemma hd_rev_sort:
  fixes xs :: "('a::linorder \<times> 'b::linorder) list"
  assumes "xs \<noteq> []"
  shows "fst (hd (rev (sort xs))) = Max (fst ` set xs)"
proof -
  have "sort xs \<noteq> []" using assms by (metis length_0_conv length_sort)
  then have "hd (rev (sort xs)) = Max (set xs)"
    using last_sorted_Max[of "sort xs"] by (simp add: hd_rev)
  then show ?thesis using fst_Max_lex[of "set xs"] assms by simp
qed

section \<open>Lemmas: digits, splitting and the line format\<close>

lemma digit_char_cases:
  "d < 10 \<Longrightarrow> d \<in> {0, 1, 2, 3, 4, 5, 6, 7, 8, 9::nat}"
  by auto

lemma digit_chars: "map digit_char [0, 1, 2, 3, 4, 5, 6, 7, 8, 9] = ''0123456789''"
  by code_simp

lemma isdigit_digit_char: "d < 10 \<Longrightarrow> isdigit (digit_char d)"
proof -
  assume "d < 10"
  then have "digit_char d \<in> set (map digit_char [0, 1, 2, 3, 4, 5, 6, 7, 8, 9])"
    using digit_char_cases[of d] by auto
  then show ?thesis unfolding digit_chars isdigit_def .
qed

lemma digit_value_digit_char: "d < 10 \<Longrightarrow> digit_value (digit_char d) = d"
  by (simp add: digit_value_def digit_char_def)

lemma str_nat_digits: "list_all isdigit (str_nat n)"
proof (induction n rule: str_nat.induct)
  case (1 n)
  show ?case
  proof (cases "n < 10")
    case True
    then show ?thesis by (subst str_nat.simps) (simp add: isdigit_digit_char)
  next
    case False
    then show ?thesis using 1 by (subst str_nat.simps) (simp add: isdigit_digit_char)
  qed
qed

lemma str_nat_nonempty: "str_nat n \<noteq> []"
  by (subst str_nat.simps) simp

lemma nat_of_digits_snoc:
  "nat_of_digits (ds @ [d]) = 10 * nat_of_digits ds + digit_value d"
  by (simp add: nat_of_digits_def)

lemma nat_of_digits_str_nat: "nat_of_digits (str_nat n) = n"
proof (induction n rule: str_nat.induct)
  case (1 n)
  show ?case
  proof (cases "n < 10")
    case True
    then show ?thesis
      by (subst str_nat.simps) (simp add: nat_of_digits_def digit_value_digit_char)
  next
    case False
    then have "nat_of_digits (str_nat (n div 10)) = n div 10" using 1 by simp
    with False show ?thesis
      by (subst str_nat.simps) (simp add: nat_of_digits_snoc digit_value_digit_char)
  qed
qed

lemma split_no_sep: "sep \<notin> set s \<Longrightarrow> split sep s = [s]"
  by (induction s) auto

lemma split_line: "sep \<notin> set a \<Longrightarrow> split sep (a @ sep # rest) = a # split sep rest"
  by (induction a) auto

lemma isdigit_not_special:
  "isdigit c \<Longrightarrow> \<not> isspace c \<and> c \<noteq> CHR ''_'' \<and> c \<noteq> CHR ''-'' \<and> c \<noteq> CHR ''+'' \<and> c \<noteq> CHR 0x0A \<and> c \<noteq> CHR '' ''"
  by (auto simp: isdigit_def isspace_def)

lemma str_nat_set: "c \<in> set (str_nat n) \<Longrightarrow> isdigit c"
  using str_nat_digits[of n] by (simp add: list_all_iff)

lemma str_nat_hd: "\<exists>c cs. str_nat n = c # cs \<and> isdigit c"
  using str_nat_nonempty[of n] str_nat_set[of _ n] by (cases "str_nat n") auto

lemma str_nat_last: "isdigit (last (str_nat n))"
  using str_nat_nonempty[of n] str_nat_set[of "last (str_nat n)" n] by simp

lemma dropWhile_hd: "xs \<noteq> [] \<Longrightarrow> \<not> P (hd xs) \<Longrightarrow> dropWhile P xs = xs"
  by (cases xs) auto

lemma takeWhile_stop: "\<forall>x \<in> set a. P x \<Longrightarrow> \<not> P y \<Longrightarrow> takeWhile P (a @ y # b) = a"
  by (induction a) auto

lemma dropWhile_stop: "\<forall>x \<in> set a. P x \<Longrightarrow> \<not> P y \<Longrightarrow> dropWhile P (a @ y # b) = y # b"
  by (induction a) auto

lemma strip_id:
  assumes "s \<noteq> []" "\<not> isspace (hd s)" "\<not> isspace (last s)"
  shows "strip s = s"
proof -
  have 1: "dropWhile isspace s = s" using assms by (intro dropWhile_hd) auto
  have "rev s \<noteq> []" "hd (rev s) = last s" using assms by (simp_all add: hd_rev)
  then have 2: "dropWhile isspace (rev s) = rev s" using assms by (intro dropWhile_hd) auto
  show ?thesis by (simp add: strip_def 1 2)
qed

lemma int_literal_str_nat: "int_literal (str_nat n)"
proof -
  have "CHR ''_'' \<notin> set (str_nat n)" using str_nat_set isdigit_not_special by blast
  then have "split (CHR ''_'') (str_nat n) = [str_nat n]" by (rule split_no_sep)
  then show ?thesis by (simp add: int_literal_def str_nat_nonempty str_nat_digits)
qed

lemma filter_underscore_str_nat: "filter (\<lambda>c. c \<noteq> CHR ''_'') (str_nat n) = str_nat n"
  using str_nat_set isdigit_not_special by (auto simp: filter_id_conv)

lemma py_int_str_nat: "py_int (str_nat n) = Inr (int n)"
proof -
  obtain c cs where c: "str_nat n = c # cs" "isdigit c" using str_nat_hd by blast
  have "strip (str_nat n) = str_nat n"
    using c str_nat_last[of n] isdigit_not_special by (intro strip_id) auto
  moreover have "\<not> startswith (str_nat n) ''-''" "\<not> startswith (str_nat n) ''+''"
    using c isdigit_not_special by auto
  ultimately show ?thesis
    by (simp add: py_int_def Let_def int_literal_str_nat filter_underscore_str_nat
        nat_of_digits_str_nat)
qed

lemma py_int_str_int: "py_int (str_int i) = Inr i"
proof (cases "i < 0")
  case False
  then show ?thesis by (simp add: str_int_def py_int_str_nat)
next
  case True
  let ?t = "CHR ''-'' # str_nat (nat (- i))"
  have "strip ?t = ?t"
    using str_nat_last[of "nat (- i)"] str_nat_nonempty[of "nat (- i)"] isdigit_not_special
    by (intro strip_id) (auto simp: isspace_def)
  then show ?thesis using True
    by (simp add: str_int_def py_int_def Let_def int_literal_str_nat filter_underscore_str_nat
        nat_of_digits_str_nat)
qed

lemma str_int_set: "c \<in> set (str_int i) \<Longrightarrow> c = CHR ''-'' \<or> isdigit c"
  using str_nat_set by (auto simp: str_int_def split: if_splits)

lemma str_int_plain: "CHR '' '' \<notin> set (str_int i)" "CHR 0x0A \<notin> set (str_int i)"
  using str_int_set[of _ i] isdigit_not_special by auto

lemma rsplit_once:
  assumes "sep \<notin> set c"
  shows "rev (takeWhile (\<lambda>x. x \<noteq> sep) (rev (u @ sep # c))) = c"
    and "rev (tl (dropWhile (\<lambda>x. x \<noteq> sep) (rev (u @ sep # c)))) = u"
proof -
  have r: "rev (u @ sep # c) = rev c @ sep # rev u" by simp
  have a: "\<forall>x \<in> set (rev c). x \<noteq> sep" using assms by auto
  show "rev (takeWhile (\<lambda>x. x \<noteq> sep) (rev (u @ sep # c))) = c"
    unfolding r using a by (simp add: takeWhile_stop)
  show "rev (tl (dropWhile (\<lambda>x. x \<noteq> sep) (rev (u @ sep # c)))) = u"
    unfolding r using a by (simp add: dropWhile_stop)
qed

lemma rsplit_three:
  assumes "sep \<notin> set m" "sep \<notin> set c"
  shows "rsplit sep 2 (u @ sep # m @ sep # c) = rsplit sep 0 u @ [m, c]"
proof -
  have "rsplit sep (Suc (Suc 0)) ((u @ sep # m) @ sep # c) =
        rsplit sep (Suc 0) (u @ sep # m) @ [c]"
    using rsplit_once[OF assms(2), of "u @ sep # m"] by simp
  also have "rsplit sep (Suc 0) (u @ sep # m) = rsplit sep 0 u @ [m]"
    using rsplit_once[OF assms(1), of u] by simp
  finally show ?thesis by (simp add: numeral_2_eq_2)
qed

lemma checksums_line_body: "checksums_line item = line_body item @ [CHR 0x0A]"
  by (cases item) (simp add: checksums_line_def line_body_def)

lemma update_fresh: "k \<notin> fst ` set al \<Longrightarrow> AList.update k v al = al @ [(k, v)]"
  by (induction al) auto

lemma dict_update_fresh:
  "distinct (map fst (acc @ items)) \<Longrightarrow> dict_update acc items = acc @ items"
proof (induction items arbitrary: acc)
  case Nil
  then show ?case by (simp add: dict_update_def)
next
  case (Cons kv items)
  have "fst kv \<notin> fst ` set acc" using Cons.prems by auto
  then have "AList.update (fst kv) (snd kv) acc = acc @ [kv]" by (simp add: update_fresh)
  moreover have "distinct (map fst ((acc @ [kv]) @ items))" using Cons.prems by simp
  ultimately show ?case using Cons.IH[of "acc @ [kv]"] by (simp add: dict_update_def)
qed

lemma distinct_keys_sort:
  fixes d :: "('a::linorder \<times> 'b::linorder) list"
  shows "distinct (map fst (sort d)) = distinct (map fst d)"
  by (simp add: distinct_map)

lemma line_body_no_newline: "line_ok item \<Longrightarrow> CHR 0x0A \<notin> set (line_body item)"
  using str_int_plain(2) by (cases item) (auto simp: line_ok_def line_body_def)

lemma split_checksums_text:
  "list_all line_ok items \<Longrightarrow>
   split (CHR 0x0A) (concat (map checksums_line items)) = map line_body items @ [[]]"
proof (induction items)
  case Nil
  then show ?case by simp
next
  case (Cons item items)
  have "concat (map checksums_line (item # items)) =
      line_body item @ CHR 0x0A # concat (map checksums_line items)"
    by (simp only: list.map concat.simps checksums_line_body[of item]) simp
  moreover have "split (CHR 0x0A) (line_body item @ CHR 0x0A # concat (map checksums_line items)) =
     line_body item # split (CHR 0x0A) (concat (map checksums_line items))"
    using Cons.prems by (intro split_line line_body_no_newline) simp
  moreover have "split (CHR 0x0A) (concat (map checksums_line items)) = map line_body items @ [[]]"
    using Cons by simp
  ultimately show ?case by (simp only: list.map append_Cons)
qed

lemma rsplit_line_body:
  assumes "line_ok (url, size', checksum)"
  shows "rsplit (CHR '' '') 2 (line_body (url, size', checksum)) = [url, str_int size', checksum]"
proof -
  have "rsplit (CHR '' '') 2 (url @ CHR '' '' # str_int size' @ CHR '' '' # checksum) =
      rsplit (CHR '' '') 0 url @ [str_int size', checksum]"
    using assms str_int_plain(1)[of size'] by (intro rsplit_three) (auto simp: line_ok_def)
  then show ?thesis by (simp add: line_body_def)
qed

lemma line_body_nonempty: "line_body item \<noteq> []"
  by (cases item) (simp add: line_body_def)

lemma parse_lines_written:
  "list_all line_ok items \<Longrightarrow>
   parse_lines (map line_body items @ [[]]) acc = Inr (dict_update acc items)"
proof (induction items arbitrary: acc)
  case Nil
  then show ?case by (simp add: dict_update_def)
next
  case (Cons item items)
  obtain url size' checksum where i: "item = (url, size', checksum)" by (cases item) auto
  have r: "rsplit (CHR '' '') 2 (line_body item) = [url, str_int size', checksum]"
    using Cons.prems i rsplit_line_body by simp
  have "parse_lines (line_body item # (map line_body items @ [[]])) acc =
      parse_lines (map line_body items @ [[]]) (AList.update url (size', checksum) acc)"
    by (simp add: r py_int_str_int line_body_nonempty)
  then show ?case using Cons i by (simp add: dict_update_def)
qed

lemma parse_checksums_text:
  assumes "distinct (map fst d)" "list_all line_ok d"
  shows "parse_sizes_checksums (checksums_text d) = Inr (sort d)"
proof -
  have ok: "list_all line_ok (sort d)" using assms(2) by (simp add: list_all_iff)
  have "distinct (map fst ([] @ sort d))" using assms(1) by (simp add: distinct_keys_sort)
  then have "dict_update [] (sort d) = sort d" using dict_update_fresh[of "[]" "sort d"] by simp
  then show ?thesis
    using split_checksums_text[OF ok] parse_lines_written[OF ok, of "[]"]
    by (simp add: parse_sizes_checksums_def checksums_text_def)
qed

section \<open>Lemmas: the checksum registry\<close>

text \<open>
  The lookup: \<open>_get_dataset_to_path\<close> either raises or returns the empty dictionary, so from
  the state of a fresh import \<open>_get_path\<close> returns no path and \<open>maybe_store_checksums\<close>
  raises before it reads or writes a file. The lemmas after these say what the function
  does from line 123 on, for a path handed to it.
\<close>

lemma scan_checksum_dirs_result:
  "scan_checksum_dirs st dirs acc =
     (if \<exists>dir_path \<in> set dirs. fnames_of (walk st dir_path) dir_path \<noteq> []
      then Inl (AttributeError list_endswith_msg) else Inr acc)"
  by (induction dirs) (auto split: list.splits)

lemma get_dataset_to_path_empty:
  assumes "memo_get_dataset_to_path st = None \<or> memo_get_dataset_to_path st = Some []"
    and "get_dataset_to_path st = (Inr dataset2path, st1)"
  shows "dataset2path = []"
  using assms
  by (auto simp: get_dataset_to_path_def scan_checksum_dirs_result split: if_splits)

lemma get_path_never_returns:
  assumes "memo_get_dataset_to_path st = None \<or> memo_get_dataset_to_path st = Some []"
  shows "fst (get_path dataset_name st) \<noteq> Inr path"
proof (cases "get_dataset_to_path st")
  case (Pair r st1)
  show ?thesis
  proof (cases r)
    case (Inl e)
    with Pair show ?thesis by (simp add: get_path_def)
  next
    case (Inr d)
    with Pair assms have "d = []" using get_dataset_to_path_empty by blast
    with Pair Inr show ?thesis by (simp add: get_path_def)
  qed
qed

lemma get_dataset_to_path_frame:
  "get_dataset_to_path st = (r, st1) \<Longrightarrow>
   files st1 = files st \<and> ALL_SIZE_CHECKSUMS st1 = ALL_SIZE_CHECKSUMS st \<and>
   REGISTER_CHECKSUMS st1 = REGISTER_CHECKSUMS st"
  by (auto simp: get_dataset_to_path_def split: option.splits sum.splits)

lemma maybe_store_checksums_never_returns:
  assumes "memo_get_dataset_to_path st = None \<or> memo_get_dataset_to_path st = Some []"
  shows "\<exists>e. fst (maybe_store_checksums dataset_name sizes_checksums st) = Inl e"
    and "files (snd (maybe_store_checksums dataset_name sizes_checksums st)) = files st"
proof -
  obtain r st1 where g: "get_path dataset_name st = (r, st1)" by (cases "get_path dataset_name st")
  then obtain e where e: "r = Inl e"
    using get_path_never_returns[OF assms, of dataset_name] by (cases r) auto
  show "\<exists>e. fst (maybe_store_checksums dataset_name sizes_checksums st) = Inl e"
    using g e by (simp add: maybe_store_checksums_def)
  obtain r0 st0 where d: "get_dataset_to_path st = (r0, st0)" by (cases "get_dataset_to_path st")
  have "st1 = st0" using g d by (auto simp: get_path_def split: sum.splits option.splits if_splits)
  then have "files st1 = files st" using get_dataset_to_path_frame[OF d] by simp
  then show "files (snd (maybe_store_checksums dataset_name sizes_checksums st)) = files st"
    using g e by (simp add: maybe_store_checksums_def)
qed

lemma get_sizes_checksums_frame:
  "get_sizes_checksums path st = (r, st1) \<Longrightarrow>
   files st1 = files st \<and> ALL_SIZE_CHECKSUMS st1 = ALL_SIZE_CHECKSUMS st \<and>
   REGISTER_CHECKSUMS st1 = REGISTER_CHECKSUMS st"
  by (auto simp: get_sizes_checksums_def split: option.splits sum.splits)

lemma get_sizes_checksums_memo:
  "get_sizes_checksums path st = (Inr d, st1) \<Longrightarrow>
   map_of (memo_get_sizes_checksums st1) path = Some d"
  by (auto simp: get_sizes_checksums_def update_conv' split: option.splits sum.splits)

lemma get_sizes_checksums_cached:
  "map_of (memo_get_sizes_checksums st) path = Some d \<Longrightarrow>
   get_sizes_checksums path st = (Inr d, st)"
  by (simp add: get_sizes_checksums_def)

lemma store_checksums_at_not_registering:
  assumes "\<not> REGISTER_CHECKSUMS st"
    and "get_sizes_checksums path st = (Inr original_data, st1)"
  shows "store_checksums_at path sizes_checksums st =
     (if dict_eq original_data (dict_update original_data sizes_checksums) then Inr ()
      else Inl (AssertionError register_first_msg), st1)"
    and "files st1 = files st"
    and "ALL_SIZE_CHECKSUMS st1 = ALL_SIZE_CHECKSUMS st"
  using assms get_sizes_checksums_frame[OF assms(2)]
  by (simp_all add: store_checksums_at_def Let_def)

lemma store_checksums_at_registering:
  assumes "REGISTER_CHECKSUMS st"
    and "get_sizes_checksums path st = (Inr original_data, st1)"
    and "\<not> dict_eq original_data (dict_update original_data sizes_checksums)"
  shows "store_checksums_at path sizes_checksums st =
     (Inr (),
      st1\<lparr>ALL_SIZE_CHECKSUMS := dict_update (ALL_SIZE_CHECKSUMS st) sizes_checksums,
          files := AList.update path
             (checksums_text (dict_update original_data sizes_checksums)) (files st)\<rparr>)"
  using assms get_sizes_checksums_frame[OF assms(2)]
  by (simp add: store_checksums_at_def Let_def)

lemma store_checksums_at_twice:
  assumes "store_checksums_at path sizes_checksums st = (Inr (), st2)"
  shows "\<exists>st3. store_checksums_at path sizes_checksums st2 = (Inr (), st3) \<and>
           files st3 = files st2"
proof -
  obtain r st1 where g: "get_sizes_checksums path st = (r, st1)"
    by (cases "get_sizes_checksums path st")
  with assms obtain d where r: "r = Inr d"
    by (cases r) (auto simp: store_checksums_at_def)
  have memo1: "map_of (memo_get_sizes_checksums st1) path = Some d"
    using g r get_sizes_checksums_memo by simp
  show ?thesis
  proof (cases "dict_eq d (dict_update d sizes_checksums)")
    case True
    with assms g r have "st2 = st1" by (simp add: store_checksums_at_def Let_def)
    then have "get_sizes_checksums path st2 = (Inr d, st2)"
      using memo1 get_sizes_checksums_cached by simp
    with True show ?thesis by (simp add: store_checksums_at_def Let_def)
  next
    case False
    with assms g r have reg: "REGISTER_CHECKSUMS st1"
      by (auto simp: store_checksums_at_def Let_def split: if_splits)
    with assms g r False have st2: "st2 =
        st1\<lparr>ALL_SIZE_CHECKSUMS := dict_update (ALL_SIZE_CHECKSUMS st1) sizes_checksums,
            files := AList.update path (checksums_text (dict_update d sizes_checksums)) (files st1)\<rparr>"
      by (simp add: store_checksums_at_def Let_def)
    then have "get_sizes_checksums path st2 = (Inr d, st2)"
      using memo1 by (intro get_sizes_checksums_cached) simp
    with False reg st2 show ?thesis by (simp add: store_checksums_at_def Let_def)
  qed
qed

lemma distinct_dict_update:
  "distinct (map fst d) \<Longrightarrow> distinct (map fst (dict_update d other))"
  unfolding dict_update_def
  by (induction other arbitrary: d) (simp_all add: distinct_update)

lemma map_of_dict_update:
  "distinct (map fst other) \<Longrightarrow> map_of (dict_update d other) = map_of d ++ map_of other"
proof (induction other arbitrary: d)
  case Nil
  then show ?case by (simp add: dict_update_def)
next
  case (Cons kv other)
  have "map_of (dict_update (AList.update (fst kv) (snd kv) d) other) =
      map_of (AList.update (fst kv) (snd kv) d) ++ map_of other"
    using Cons by simp
  moreover have "fst kv \<notin> dom (map_of other)"
    using Cons.prems by (simp add: dom_map_of_conv_image_fst)
  ultimately show ?case
    by (cases kv) (auto simp: dict_update_def update_conv' map_add_def fun_eq_iff
        split: option.splits)
qed

text \<open>
  The merge: for distinct paths that are read for the first time and whose files parse,
  the loop of \<open>get_all_sizes_checksums\<close> fails exactly when two of the files hold distinct
  tuples for one URL, and otherwise leaves the union of the files in the global
  dictionary. From the state of a fresh import \<open>get_all_sizes_checksums\<close> does not reach
  this loop with any path.
\<close>

lemma file_checksums_frame:
  "file_checksums (st\<lparr>memo_get_sizes_checksums := m\<rparr>) = file_checksums st"
  "file_checksums (st\<lparr>ALL_SIZE_CHECKSUMS := a\<rparr>) = file_checksums st"
  by (rule ext, simp add: file_checksums_def read_file_def)+

lemma get_sizes_checksums_first_read:
  assumes "map_of (memo_get_sizes_checksums st) path = None"
    and "file_checksums st path = Inr d"
  shows "get_sizes_checksums path st =
     (Inr d, st\<lparr>memo_get_sizes_checksums := AList.update path d (memo_get_sizes_checksums st)\<rparr>)"
  using assms by (auto simp: get_sizes_checksums_def file_checksums_def split: sum.splits)

lemma merge_checksum_files_merge_dicts:
  assumes "distinct ps"
    and "\<forall>p \<in> set ps. map_of (memo_get_sizes_checksums st) p = None"
    and "map (file_checksums st) ps = map Inr ds"
  shows "fst (merge_checksum_files ps st) =
           (case merge_dicts ds (ALL_SIZE_CHECKSUMS st) of
              Inl url \<Rightarrow> Inl (AssertionError (distinct_tuples_msg url))
            | Inr merged \<Rightarrow> Inr ())
       \<and> (\<forall>merged. merge_dicts ds (ALL_SIZE_CHECKSUMS st) = Inr merged \<longrightarrow>
             ALL_SIZE_CHECKSUMS (snd (merge_checksum_files ps st)) = merged)
       \<and> files (snd (merge_checksum_files ps st)) = files st"
  using assms
proof (induction ps arbitrary: st ds)
  case Nil
  then show ?case by simp
next
  case (Cons p ps)
  then obtain d ds' where ds: "ds = d # ds'" by (cases ds) auto
  have fc: "file_checksums st p = Inr d" using Cons.prems(3) ds by simp
  let ?st1 = "st\<lparr>memo_get_sizes_checksums := AList.update p d (memo_get_sizes_checksums st)\<rparr>"
  have g: "get_sizes_checksums p st = (Inr d, ?st1)"
    using Cons.prems(2) fc by (intro get_sizes_checksums_first_read) auto
  show ?case
  proof (cases "first_conflict d (ALL_SIZE_CHECKSUMS st)")
    case (Some url)
    then show ?thesis using g ds by simp
  next
    case None
    let ?st2 = "?st1\<lparr>ALL_SIZE_CHECKSUMS := dict_update (ALL_SIZE_CHECKSUMS ?st1) d\<rparr>"
    have 1: "distinct ps" using Cons.prems(1) by simp
    have 2: "\<forall>q \<in> set ps. map_of (memo_get_sizes_checksums ?st2) q = None"
      using Cons.prems(1,2) by (auto simp: update_conv')
    have 3: "map (file_checksums ?st2) ps = map Inr ds'"
      using Cons.prems(3) ds by (simp add: file_checksums_frame)
    have step: "merge_checksum_files (p # ps) st = merge_checksum_files ps ?st2"
      using g None by simp
    show ?thesis using Cons.IH[OF 1 2 3] None ds unfolding step by simp
  qed
qed

lemma agrees_Cons:
  assumes "map_of d url = None"
  shows "agrees a ((url, sc) # d) \<longleftrightarrow>
      (map_of a url = None \<or> map_of a url = Some sc) \<and> agrees a d"
proof
  assume l: "agrees a ((url, sc) # d)"
  have "map_of a url = None \<or> map_of a url = Some sc"
  proof (cases "map_of a url")
    case None
    then show ?thesis by simp
  next
    case (Some v)
    moreover have "map_of ((url, sc) # d) url = Some sc" by simp
    ultimately have "v = sc" using l unfolding agrees_def by blast
    then show ?thesis using Some by simp
  qed
  moreover have "agrees a d" unfolding agrees_def
  proof (intro allI impI)
    fix u v v' assume h: "map_of a u = Some v \<and> map_of d u = Some v'"
    then have "u \<noteq> url" using assms by auto
    then have "map_of ((url, sc) # d) u = Some v'" using h by simp
    then show "v = v'" using l h unfolding agrees_def by blast
  qed
  ultimately show "(map_of a url = None \<or> map_of a url = Some sc) \<and> agrees a d" by simp
next
  assume r: "(map_of a url = None \<or> map_of a url = Some sc) \<and> agrees a d"
  show "agrees a ((url, sc) # d)" unfolding agrees_def
  proof (intro allI impI)
    fix u v v' assume h: "map_of a u = Some v \<and> map_of ((url, sc) # d) u = Some v'"
    show "v = v'"
    proof (cases "u = url")
      case True
      then have "v' = sc" using h by simp
      then show ?thesis using r h True by auto
    next
      case False
      then have "map_of d u = Some v'" using h by simp
      then show ?thesis using r h unfolding agrees_def by blast
    qed
  qed
qed

lemma first_conflict_agrees:
  "distinct (map fst d) \<Longrightarrow> first_conflict d a = None \<longleftrightarrow> agrees a d"
proof (induction d)
  case Nil
  then show ?case by (simp add: agrees_def)
next
  case (Cons item d)
  obtain url sc where i: "item = (url, sc)" by (cases item)
  have notin: "map_of d url = None" using Cons.prems i
    by (simp add: map_of_eq_None_iff)
  have ih: "first_conflict d a = None \<longleftrightarrow> agrees a d" using Cons by simp
  show ?case
  proof (cases "map_of a url")
    case None
    then show ?thesis using ih agrees_Cons[OF notin, of a sc] i by simp
  next
    case (Some registered)
    then show ?thesis using ih agrees_Cons[OF notin, of a sc] i by (cases "registered = sc") auto
  qed
qed

lemma agrees_dict_update:
  assumes "distinct (map fst d)" "agrees a d"
  shows "agrees (dict_update a d) d' \<longleftrightarrow> agrees a d' \<and> agrees d d'"
proof -
  have m: "map_of (dict_update a d) = map_of a ++ map_of d"
    using assms(1) by (rule map_of_dict_update)
  show ?thesis
  proof
    assume l: "agrees (dict_update a d) d'"
    have "agrees a d'" unfolding agrees_def
    proof (intro allI impI)
      fix url v v' assume h: "map_of a url = Some v \<and> map_of d' url = Some v'"
      show "v = v'"
      proof (cases "map_of d url")
        case None
        then have "map_of (dict_update a d) url = Some v" using h by (simp add: m map_add_def)
        then show ?thesis using l h unfolding agrees_def by blast
      next
        case (Some w)
        then have "map_of (dict_update a d) url = Some w" by (simp add: m map_add_def)
        then have "w = v'" using l h unfolding agrees_def by blast
        moreover have "v = w" using assms(2) h Some unfolding agrees_def by blast
        ultimately show ?thesis by simp
      qed
    qed
    moreover have "agrees d d'" unfolding agrees_def
    proof (intro allI impI)
      fix url w v' assume h: "map_of d url = Some w \<and> map_of d' url = Some v'"
      then have "map_of (dict_update a d) url = Some w" by (simp add: m map_add_def)
      then show "w = v'" using l h unfolding agrees_def by blast
    qed
    ultimately show "agrees a d' \<and> agrees d d'" by simp
  next
    assume r: "agrees a d' \<and> agrees d d'"
    show "agrees (dict_update a d) d'" unfolding agrees_def
    proof (intro allI impI)
      fix url v v' assume h: "map_of (dict_update a d) url = Some v \<and> map_of d' url = Some v'"
      show "v = v'"
      proof (cases "map_of d url")
        case None
        then have "map_of a url = Some v" using h by (simp add: m map_add_def)
        then show ?thesis using r h unfolding agrees_def by blast
      next
        case (Some w)
        then have "w = v" using h by (simp add: m map_add_def)
        then show ?thesis using r h Some unfolding agrees_def by blast
      qed
    qed
  qed
qed

lemma merge_dicts_succeeds:
  assumes "list_all (\<lambda>d. distinct (map fst d)) ds"
  shows "(\<exists>merged. merge_dicts ds a = Inr merged) \<longleftrightarrow>
         (\<forall>d \<in> set ds. agrees a d) \<and> sorted_wrt agrees ds"
  using assms
proof (induction ds arbitrary: a)
  case Nil
  then show ?case by simp
next
  case (Cons d ds)
  have dd: "distinct (map fst d)" and rest: "list_all (\<lambda>d. distinct (map fst d)) ds"
    using Cons.prems by simp_all
  show ?case
  proof (cases "agrees a d")
    case False
    then have "first_conflict d a \<noteq> None" using first_conflict_agrees[OF dd] by simp
    then show ?thesis using False by (auto split: option.splits)
  next
    case True
    then have "first_conflict d a = None" using first_conflict_agrees[OF dd] by simp
    then have "(\<exists>merged. merge_dicts (d # ds) a = Inr merged) \<longleftrightarrow>
        (\<forall>d' \<in> set ds. agrees (dict_update a d) d') \<and> sorted_wrt agrees ds"
      using Cons.IH[OF rest, of "dict_update a d"] by simp
    then show ?thesis using True agrees_dict_update[OF dd True] by auto
  qed
qed

lemma merge_dicts_result:
  assumes "list_all (\<lambda>d. distinct (map fst d)) ds" "merge_dicts ds a = Inr merged"
  shows "map_of merged = fold (\<lambda>d m. m ++ map_of d) ds (map_of a)"
  using assms
proof (induction ds arbitrary: a)
  case Nil
  then show ?case by simp
next
  case (Cons d ds)
  then show ?case
    by (cases "first_conflict d a") (auto simp: map_of_dict_update)
qed

lemma merge_dicts_fails:
  "merge_dicts ds a = Inl url \<Longrightarrow> \<not> (\<exists>merged. merge_dicts ds a = Inr merged)"
  by simp

lemma distinct_parse_lines:
  "parse_lines ls acc = Inr d \<Longrightarrow> distinct (map fst acc) \<Longrightarrow> distinct (map fst d)"
proof (induction ls arbitrary: acc)
  case Nil
  then show ?case by simp
next
  case (Cons l ls)
  show ?case
  proof (cases "l = []")
    case True
    with Cons show ?thesis by simp
  next
    case False
    with Cons.prems(1) obtain url size_text checksum n where
      "rsplit (CHR '' '') 2 l = [url, size_text, checksum]" "py_int size_text = Inr n"
      "parse_lines ls (AList.update url (n, checksum) acc) = Inr d"
      by (auto split: list.splits sum.splits)
    then show ?thesis using Cons.IH Cons.prems(2) by (simp add: distinct_update)
  qed
qed

lemma distinct_file_checksums:
  "file_checksums st p = Inr d \<Longrightarrow> distinct (map fst d)"
  using distinct_parse_lines[of _ "[]" d]
  by (auto simp: file_checksums_def parse_sizes_checksums_def split: sum.splits)

lemma merge_checksum_files_conflict:
  assumes "distinct ps"
    and "\<forall>p \<in> set ps. map_of (memo_get_sizes_checksums st) p = None"
    and "map (file_checksums st) ps = map Inr ds"
    and "ALL_SIZE_CHECKSUMS st = []"
  shows "(\<exists>e. fst (merge_checksum_files ps st) = Inl e) \<longleftrightarrow> \<not> sorted_wrt agrees ds"
    and "fst (merge_checksum_files ps st) = Inr () \<Longrightarrow>
         map_of (ALL_SIZE_CHECKSUMS (snd (merge_checksum_files ps st))) =
           fold (\<lambda>d m. m ++ map_of d) ds Map.empty"
proof -
  have dist: "list_all (\<lambda>d. distinct (map fst d)) ds"
  proof -
    have "\<forall>i < length ds. distinct (map fst (ds ! i))"
    proof (intro allI impI)
      fix i assume i: "i < length ds"
      have len: "length ps = length ds" using assms(3) by (metis length_map)
      have "map (file_checksums st) ps ! i = map Inr ds ! i" using assms(3) by simp
      then have "file_checksums st (ps ! i) = Inr (ds ! i)" using i len by simp
      then show "distinct (map fst (ds ! i))" by (rule distinct_file_checksums)
    qed
    then show ?thesis by (simp add: list_all_length)
  qed
  note m = merge_checksum_files_merge_dicts[OF assms(1-3)]
  have ok: "(\<exists>merged. merge_dicts ds [] = Inr merged) \<longleftrightarrow> sorted_wrt agrees ds"
    using merge_dicts_succeeds[OF dist, of "[]"] by (simp add: agrees_def)
  show "(\<exists>e. fst (merge_checksum_files ps st) = Inl e) \<longleftrightarrow> \<not> sorted_wrt agrees ds"
    using m ok assms(4) by (cases "merge_dicts ds []") auto
  show "map_of (ALL_SIZE_CHECKSUMS (snd (merge_checksum_files ps st))) =
           fold (\<lambda>d m. m ++ map_of d) ds Map.empty"
    if "fst (merge_checksum_files ps st) = Inr ()"
  proof -
    from that m assms(4) obtain merged where mg: "merge_dicts ds [] = Inr merged"
      by (cases "merge_dicts ds []") auto
    then have "ALL_SIZE_CHECKSUMS (snd (merge_checksum_files ps st)) = merged"
      using m assms(4) by simp
    then show ?thesis using merge_dicts_result[OF dist mg] by simp
  qed
qed

lemma get_all_sizes_checksums_at_import:
  assumes "memo_get_dataset_to_path st = None" "\<not> memo_get_all_sizes_checksums st"
  shows "fst (get_all_sizes_checksums st) =
     (if \<exists>dir_path \<in> set (CHECKSUM_DIRS st). fnames_of (walk st dir_path) dir_path \<noteq> []
      then Inl (AttributeError list_endswith_msg)
      else Inr (ALL_SIZE_CHECKSUMS st))"
  using assms
  by (simp add: get_all_sizes_checksums_def get_dataset_to_path_def scan_checksum_dirs_result)

text \<open>
  What a checksum file parses to can be written back: its URLs hold no newline, its
  checksums no space and no newline.
\<close>

lemma split_pieces: "l \<in> set (split sep s) \<Longrightarrow> sep \<notin> set l"
proof (induction s arbitrary: l)
  case Nil
  then show ?case by simp
next
  case (Cons c s)
  show ?case
  proof (cases "c = sep")
    case True
    with Cons show ?thesis by auto
  next
    case False
    show ?thesis
    proof (cases "split sep s")
      case Nil
      with False Cons.prems show ?thesis by simp
    next
      case (Cons w ws)
      with False Cons.prems have "l = c # w \<or> l \<in> set ws" by simp
      moreover have "sep \<notin> set w" "\<forall>x \<in> set ws. sep \<notin> set x"
        using Cons.IH Cons by simp_all
      ultimately show ?thesis using False by auto
    qed
  qed
qed

lemma rsplit_parts:
  assumes "rsplit sep 2 l = [a, b, c]"
  shows "set a \<subseteq> set l" and "set c \<subseteq> set l" and "sep \<notin> set c"
proof -
  let ?front = "rev (tl (dropWhile (\<lambda>x. x \<noteq> sep) (rev l)))"
  have two: "rsplit sep (Suc (Suc 0)) l = [a, b, c]" using assms by (simp add: numeral_2_eq_2)
  then have inl: "sep \<in> set l" by (auto split: if_splits)
  with two have 1: "rsplit sep (Suc 0) ?front = [a, b]"
    and c: "c = rev (takeWhile (\<lambda>x. x \<noteq> sep) (rev l))" by auto
  then have inf: "sep \<in> set ?front" by (auto split: if_splits)
  with 1 have a: "a = rev (tl (dropWhile (\<lambda>x. x \<noteq> sep) (rev ?front)))" by auto
  have tl_sub: "\<And>xs :: string. set (tl xs) \<subseteq> set xs" by (metis list.set_sel(2) subsetI tl_Nil)
  have dw: "\<And>xs :: string. set (dropWhile (\<lambda>x. x \<noteq> sep) xs) \<subseteq> set xs"
    by (meson set_dropWhileD subsetI)
  have front: "set ?front \<subseteq> set l" using tl_sub dw by (metis set_rev subset_trans)
  have "set a \<subseteq> set ?front" unfolding a using tl_sub dw by (metis set_rev subset_trans)
  then show "set a \<subseteq> set l" using front by blast
  show "set c \<subseteq> set l" unfolding c using set_takeWhileD by fastforce
  show "sep \<notin> set c" unfolding c using set_takeWhileD by fastforce
qed

lemma set_update_subset: "set (AList.update k v al) \<subseteq> insert (k, v) (set al)"
  by (induction al) auto

lemma line_ok_parse_lines:
  "parse_lines ls acc = Inr d \<Longrightarrow> list_all line_ok acc \<Longrightarrow>
   \<forall>l \<in> set ls. CHR 0x0A \<notin> set l \<Longrightarrow> list_all line_ok d"
proof (induction ls arbitrary: acc)
  case Nil
  then show ?case by simp
next
  case (Cons l ls)
  show ?case
  proof (cases "l = []")
    case True
    with Cons show ?thesis by simp
  next
    case False
    with Cons.prems(1) obtain url size_text checksum n where
      r: "rsplit (CHR '' '') 2 l = [url, size_text, checksum]" and "py_int size_text = Inr n"
      and p: "parse_lines ls (AList.update url (n, checksum) acc) = Inr d"
      by (auto split: list.splits sum.splits)
    have nl: "CHR 0x0A \<notin> set l" using Cons.prems(3) by simp
    have "line_ok (url, n, checksum)"
      using rsplit_parts[OF r] nl by (auto simp: line_ok_def)
    then have "list_all line_ok (AList.update url (n, checksum) acc)"
      using Cons.prems(2) set_update_subset[of url "(n, checksum)" acc]
      by (auto simp: list_all_iff)
    then show ?thesis using Cons.IH[OF p] Cons.prems(3) by simp
  qed
qed

lemma line_ok_file_checksums: "file_checksums st p = Inr d \<Longrightarrow> list_all line_ok d"
  using line_ok_parse_lines[of _ "[]" d] split_pieces[of _ "CHR 0x0A"]
  by (auto simp: file_checksums_def parse_sizes_checksums_def split: sum.splits)

lemma set_dict_update_subset: "set (dict_update d other) \<subseteq> set d \<union> set other"
  unfolding dict_update_def
proof (induction other arbitrary: d)
  case Nil
  then show ?case by simp
next
  case (Cons kv other)
  have "set (fold (\<lambda>kv. AList.update (fst kv) (snd kv)) other (AList.update (fst kv) (snd kv) d))
      \<subseteq> set (AList.update (fst kv) (snd kv) d) \<union> set other" by (rule Cons.IH)
  then show ?case using set_update_subset[of "fst kv" "snd kv" d] by auto
qed

lemma line_ok_dict_update:
  "list_all line_ok d \<Longrightarrow> list_all line_ok other \<Longrightarrow> list_all line_ok (dict_update d other)"
  using set_dict_update_subset[of d other] by (auto simp: list_all_iff)

text \<open>
  The line format, from line 123 on and for a path handed to the function: in
  registration mode, at a checksum file that parses and is read for the first time, entries
  with no newline in a URL and no space or newline in a checksum are written so that the
  text of the file parses to the union of its previous content and the entries; URLs may
  hold spaces. A newline in a checksum is written as two lines, which do not parse.
\<close>

lemma store_checksums_at_round_trip:
  assumes "REGISTER_CHECKSUMS st"
    and "map_of (memo_get_sizes_checksums st) path = None"
    and "file_checksums st path = Inr original_data"
    and "distinct (map fst sizes_checksums)"
    and "list_all line_ok sizes_checksums"
  shows "\<exists>st2 text parsed.
      store_checksums_at path sizes_checksums st = (Inr (), st2) \<and>
      read_file path st2 = Inr text \<and>
      parse_sizes_checksums text = Inr parsed \<and>
      map_of parsed = map_of original_data ++ map_of sizes_checksums"
proof -
  let ?new = "dict_update original_data sizes_checksums"
  let ?st1 = "st\<lparr>memo_get_sizes_checksums :=
      AList.update path original_data (memo_get_sizes_checksums st)\<rparr>"
  have g: "get_sizes_checksums path st = (Inr original_data, ?st1)"
    using assms(2,3) by (rule get_sizes_checksums_first_read)
  have d0: "distinct (map fst original_data)" using assms(3) by (rule distinct_file_checksums)
  have d: "distinct (map fst ?new)" using d0 by (rule distinct_dict_update)
  have ok: "list_all line_ok ?new"
    using line_ok_file_checksums[OF assms(3)] assms(5) by (rule line_ok_dict_update)
  have u: "map_of ?new = map_of original_data ++ map_of sizes_checksums"
    using assms(4) by (rule map_of_dict_update)
  show ?thesis
  proof (cases "dict_eq original_data ?new")
    case True
    then have 1: "store_checksums_at path sizes_checksums st = (Inr (), ?st1)"
      using g by (simp add: store_checksums_at_def Let_def)
    obtain content where t: "read_file path st = Inr content" "parse_sizes_checksums content = Inr original_data"
      using assms(3) by (auto simp: file_checksums_def split: sum.splits)
    then have 2: "read_file path ?st1 = Inr content" by (simp add: read_file_def)
    have "map_of original_data = map_of ?new"
      using True d0 d by (simp add: dict_eq_def map_of_inject_set)
    then have "map_of original_data = map_of original_data ++ map_of sizes_checksums"
      using u by simp
    then show ?thesis using 1 2 t(2) by blast
  next
    case False
    let ?st2 = "?st1\<lparr>ALL_SIZE_CHECKSUMS := dict_update (ALL_SIZE_CHECKSUMS st) sizes_checksums,
          files := AList.update path (checksums_text ?new) (files st)\<rparr>"
    have 1: "store_checksums_at path sizes_checksums st = (Inr (), ?st2)"
      using assms(1) g False by (rule store_checksums_at_registering)
    have 2: "read_file path ?st2 = Inr (checksums_text ?new)"
      by (simp add: read_file_def update_conv')
    have 3: "parse_sizes_checksums (checksums_text ?new) = Inr (sort ?new)"
      using d ok by (rule parse_checksums_text)
    have "map_of (sort ?new) = map_of ?new"
      using d by (simp add: map_of_inject_set distinct_keys_sort)
    then have 4: "map_of (sort ?new) = map_of original_data ++ map_of sizes_checksums"
      using u by simp
    show ?thesis using 1 2 3 4 by blast
  qed
qed

lemma store_checksums_at_round_trip_example:
  "\<exists>st2 text parsed.
      store_checksums_at ''/tfds/url_checksums/mnist.txt''
        [(''http://b.org/y z'', (5, ''c''))] registering_registry = (Inr (), st2) \<and>
      read_file ''/tfds/url_checksums/mnist.txt'' st2 = Inr text \<and>
      parse_sizes_checksums text = Inr parsed \<and>
      map_of parsed = map_of [(''http://a.org/x y'', (10, ''abc''))] ++
                      map_of [(''http://b.org/y z'', (5, ''c''))]"
proof -
  let ?path = "''/tfds/url_checksums/mnist.txt''"
  let ?old = "[(''http://a.org/x y'', (10::int, ''abc''))]"
  let ?entries = "[(''http://b.org/y z'', (5::int, ''c''))]"
  have 1: "REGISTER_CHECKSUMS registering_registry" by code_simp
  have 2: "map_of (memo_get_sizes_checksums registering_registry) ?path = None" by code_simp
  have 3: "file_checksums registering_registry ?path = Inr ?old" by code_simp
  have 4: "distinct (map fst ?entries)" by simp
  have 5: "list_all line_ok ?entries" by code_simp
  show ?thesis by (rule store_checksums_at_round_trip[OF 1 2 3 4 5])
qed

lemma store_checksums_at_newline_example:
  "CHR 0x0A \<notin> set ''http://b.org/y'' \<and> CHR '' '' \<notin> set ''c\<newline>d'' \<and>
   fst (store_checksums_at ''/tfds/url_checksums/mnist.txt''
          [(''http://b.org/y'', (5, ''c\<newline>d''))] registering_registry) = Inr () \<and>
   read_file ''/tfds/url_checksums/mnist.txt''
     (snd (store_checksums_at ''/tfds/url_checksums/mnist.txt''
          [(''http://b.org/y'', (5, ''c\<newline>d''))] registering_registry)) =
     Inr ''http://a.org/x y 10 abc\<newline>http://b.org/y 5 c\<newline>d\<newline>'' \<and>
   parse_sizes_checksums ''http://a.org/x y 10 abc\<newline>http://b.org/y 5 c\<newline>d\<newline>'' =
     Inl (ValueError ''not enough values to unpack (expected 3)'')"
  by code_simp

section \<open>Properties of the checksum registry\<close>

text \<open>
  Claim C1: with registration mode off, \<open>maybe_store_checksums\<close> succeeds as a no-op when the
  new entries add nothing to the content of the dataset's file, and fails otherwise without
  touching the file. The code misses the first half. On \<open>fresh_registry\<close> registration is off
  and the file of \<open>mnist\<close> holds exactly the entry that is passed, so the call should return;
  it raises the \<open>AttributeError\<close> of \<open>_get_dataset_to_path\<close> instead. The file is as before.
\<close>

theorem maybe_store_checksums_raises_on_known_entries:
  "REGISTER_CHECKSUMS fresh_registry = False \<and>
   read_file ''/tfds/url_checksums/mnist.txt'' fresh_registry =
     Inr ''http://a.org/x y 10 abc\<newline>'' \<and>
   parse_sizes_checksums ''http://a.org/x y 10 abc\<newline>'' =
     Inr [(''http://a.org/x y'', (10, ''abc''))] \<and>
   fst (maybe_store_checksums ''mnist'' [(''http://a.org/x y'', (10, ''abc''))] fresh_registry) =
     Inl (AttributeError list_endswith_msg) \<and>
   files (snd (maybe_store_checksums ''mnist'' [(''http://a.org/x y'', (10, ''abc''))]
     fresh_registry)) = files fresh_registry"
  by code_simp

text \<open>
  Claim C2: in registration mode, when the content would change, \<open>maybe_store_checksums\<close>
  updates the global dictionary and rewrites the file with the union of the old and the new
  entries, sorted by URL. The code does not get there. On \<open>registering_registry\<close> the entry
  passed is new, and the call raises the \<open>AttributeError\<close> of \<open>_get_dataset_to_path\<close>; the
  global dictionary and the file are as before.
\<close>

theorem maybe_store_checksums_raises_when_registering:
  "REGISTER_CHECKSUMS registering_registry = True \<and>
   fst (maybe_store_checksums ''mnist'' [(''http://b.org/y'', (5, ''c''))] registering_registry) =
     Inl (AttributeError list_endswith_msg) \<and>
   ALL_SIZE_CHECKSUMS (snd (maybe_store_checksums ''mnist'' [(''http://b.org/y'', (5, ''c''))]
     registering_registry)) = [] \<and>
   files (snd (maybe_store_checksums ''mnist'' [(''http://b.org/y'', (5, ''c''))]
     registering_registry)) =
     [(''/tfds/url_checksums/mnist.txt'', ''http://a.org/x y 10 abc\<newline>'')]"
  by code_simp

text \<open>
  Claim C3: \<open>get_all_sizes_checksums\<close> returns the merged mapping of all checksum files and
  fails only when a URL is registered with two distinct tuples. The code fails without
  such a URL. On \<open>fresh_registry\<close> there is one file, which parses to one entry, and the call
  raises the \<open>AttributeError\<close> of \<open>_get_dataset_to_path\<close> instead of returning that entry.
\<close>

theorem get_all_sizes_checksums_raises_without_conflict:
  "files fresh_registry =
     [(''/tfds/url_checksums/mnist.txt'', ''http://a.org/x y 10 abc\<newline>'')] \<and>
   parse_sizes_checksums ''http://a.org/x y 10 abc\<newline>'' =
     Inr [(''http://a.org/x y'', (10, ''abc''))] \<and>
   fst (get_all_sizes_checksums fresh_registry) = Inl (AttributeError list_endswith_msg)"
  by code_simp

text \<open>
  Claim C9: for a mapping in which no URL contains a newline and no checksum contains a
  space, writing it with \<open>maybe_store_checksums\<close> in registration mode and parsing the file
  with \<open>_get_sizes_checksums\<close> yields the union of the previous content and the written
  entries. The code writes nothing. On \<open>registering_registry\<close>, with a new entry whose URL
  has a space inside, the call raises the \<open>AttributeError\<close> of \<open>_get_dataset_to_path\<close>, the
  file keeps its text, and \<open>_get_sizes_checksums\<close> returns the previous content alone.
\<close>

theorem maybe_store_checksums_writes_nothing_to_parse_back:
  "REGISTER_CHECKSUMS registering_registry = True \<and>
   CHR 0x0A \<notin> set ''http://b.org/y z'' \<and> CHR '' '' \<notin> set ''c'' \<and>
   fst (maybe_store_checksums ''mnist'' [(''http://b.org/y z'', (5, ''c''))]
     registering_registry) = Inl (AttributeError list_endswith_msg) \<and>
   files (snd (maybe_store_checksums ''mnist'' [(''http://b.org/y z'', (5, ''c''))]
     registering_registry)) =
     [(''/tfds/url_checksums/mnist.txt'', ''http://a.org/x y 10 abc\<newline>'')] \<and>
   fst (get_sizes_checksums ''/tfds/url_checksums/mnist.txt''
     (snd (maybe_store_checksums ''mnist'' [(''http://b.org/y z'', (5, ''c''))]
       registering_registry))) = Inr [(''http://a.org/x y'', (10, ''abc''))]"
  by code_simp

section \<open>Properties of the builder\<close>

text \<open>
  Claim C4, as the spec states it: a build into a data root that holds a complete dataset
  directory of a version different from the code-declared one fails with an error that
  names both versions, whether the reuse policy is active or not. It does not hold: the
  builder looks only at the directory of its own version. On \<open>disk_v1\<close> version 1.0.0 is on
  disk, the builder declares 2.0.0, its data directory is the one \<open>_build_data_dir\<close>
  resolves, and the build succeeds under both download modes.
\<close>

theorem different_version_on_disk_builds:
  "gfile_exists disk_v1 ''/data/mnist/1.0.0'' \<and>
   builder_version mnist = (2, 0, 0) \<and>
   fst (build_data_dir mnist disk_v1) = data_dir mnist \<and>
   fst (DatasetBuilder_download_and_prepare None (Some force_config) mnist disk_v1) = Inr () \<and>
   fst (DatasetBuilder_download_and_prepare None (Some reuse_config) mnist disk_v1) = Inr ()"
  by code_simp

text \<open>
  Claim C4, amended: when the data directory of the builder's own, code-declared version
  already exists and the download mode is not \<open>REUSE_DATASET_IF_EXISTS\<close>,
  \<open>download_and_prepare\<close> fails: with the error of the download manager's constructor if
  that raises, and otherwise with a \<open>ValueError\<close> whose message names the dataset, that
  data directory and the one version \<open>info.version\<close>, and asks to update the version
  number. In every other case in which the download manager is constructed, this error is
  not raised: a directory of a different version does not cause it.
\<close>

theorem overwrite_same_version_fails:
  "(gfile_exists w (data_dir b) \<and>
    download_mode (resolve_download_config b download_config) \<noteq> REUSE_DATASET_IF_EXISTS \<longrightarrow>
    fst (DatasetBuilder_download_and_prepare download_dir download_config b w) =
      (case fst (make_download_manager b download_dir
                   (resolve_download_config b download_config) w) of
         Inl e \<Rightarrow> Inl e
       | Inr dl_manager \<Rightarrow>
           Inl (ValueError
             (''Trying to overwrite an existing dataset '' @ builder_name b @ '' at '' @
              data_dir b @ ''. A dataset with the same version '' @
              Version_str (info_version b) @
              '' already exists. If the dataset has changed, please update the version number.'')))) \<and>
   (\<not> (gfile_exists w (data_dir b) \<and>
       download_mode (resolve_download_config b download_config) \<noteq> REUSE_DATASET_IF_EXISTS) \<and>
    fst (make_download_manager b download_dir
           (resolve_download_config b download_config) w) = Inr () \<longrightarrow>
    fst (DatasetBuilder_download_and_prepare download_dir download_config b w) \<noteq>
      Inl (ValueError
        (''Trying to overwrite an existing dataset '' @ builder_name b @ '' at '' @ data_dir b @
         ''. A dataset with the same version '' @ Version_str (info_version b) @
         '' already exists. If the dataset has changed, please update the version number.'')))"
proof -
  let ?cfg = "resolve_download_config b download_config"
  let ?dm = "make_download_manager b download_dir ?cfg w"
  let ?run = "DatasetBuilder_download_and_prepare download_dir download_config b w"
  obtain r w0 where dm: "?dm = (r, w0)" by (cases ?dm)
  have first: "fst ?run = (case fst ?dm of Inl e \<Rightarrow> Inl e
        | Inr dl_manager \<Rightarrow> Inl (ValueError (overwrite_msg b)))"
    if "gfile_exists w (data_dir b) \<and> download_mode ?cfg \<noteq> REUSE_DATASET_IF_EXISTS"
    using that dm by (cases r) (simp_all add: DatasetBuilder_download_and_prepare_def)
  have second: "fst ?run \<noteq> Inl (ValueError (overwrite_msg b))"
    if n: "\<not> (gfile_exists w (data_dir b) \<and> download_mode ?cfg \<noteq> REUSE_DATASET_IF_EXISTS)"
      and ok: "fst ?dm = Inr ()"
  proof (cases "gfile_exists w (data_dir b)")
    case True
    with n show ?thesis by (simp add: DatasetBuilder_download_and_prepare_def)
  next
    case False
    let ?tmp = "incomplete_path b (data_dir b)"
    let ?inner = "GeneratorBasedBuilder_download_and_prepare (b\<lparr>data_dir := ?tmp\<rparr>)
        (max_examples_per_split ?cfg) (gfile_makedirs ?tmp (log_download_bytes b w0))"
    have r: "r = Inr ()" using ok dm by simp
    have run: "?run = build_in_incomplete_dir ?cfg b (log_download_bytes b w0)"
      using False dm r by (simp add: DatasetBuilder_download_and_prepare_def)
    obtain r2 b2 w2 where i: "?inner = (r2, b2, w2)" by (cases ?inner)
    show ?thesis
    proof (cases r2)
      case (Inl e)
      then have "e = ValueError Split_ALL_msg"
        using download_and_prepare_error[of "b\<lparr>data_dir := ?tmp\<rparr>"
            "max_examples_per_split ?cfg" "gfile_makedirs ?tmp (log_download_bytes b w0)" e] i
        by simp
      then show ?thesis using i Inl overwrite_msg_other[of b]
        unfolding run by (simp add: build_in_incomplete_dir_def Let_def)
    next
      case (Inr u)
      then show ?thesis using i
        unfolding run by (simp add: build_in_incomplete_dir_def Let_def split: prod.splits)
    qed
  qed
  show ?thesis using first second unfolding overwrite_msg_def by blast
qed

theorem overwrite_same_version_fails_witness:
  "fst (DatasetBuilder_download_and_prepare None (Some force_config) mnist disk_v1_v2) =
     Inl (ValueError
        (''Trying to overwrite an existing dataset mnist at /data/mnist/2.0.0'' @
         ''. A dataset with the same version 2.0.0'' @
         '' already exists. If the dataset has changed, please update the version number.'')) \<and>
   fst (DatasetBuilder_download_and_prepare None (Some force_config) mnist disk_v1) \<noteq>
     Inl (ValueError
        (''Trying to overwrite an existing dataset mnist at /data/mnist/2.0.0'' @
         ''. A dataset with the same version 2.0.0'' @
         '' already exists. If the dataset has changed, please update the version number.''))"
proof -
  have 1: "gfile_exists disk_v1_v2 (data_dir mnist) \<and>
      download_mode (resolve_download_config mnist (Some force_config))
        \<noteq> REUSE_DATASET_IF_EXISTS" by code_simp
  have 2: "\<not> (gfile_exists disk_v1 (data_dir mnist) \<and>
      download_mode (resolve_download_config mnist (Some force_config))
        \<noteq> REUSE_DATASET_IF_EXISTS)" by code_simp
  have 3: "builder_name mnist = ''mnist''" "data_dir mnist = ''/data/mnist/2.0.0''"
    "Version_str (info_version mnist) = ''2.0.0''" by code_simp+
  have 4: "fst (make_download_manager mnist None
      (resolve_download_config mnist (Some force_config)) disk_v1_v2) = Inr ()" by code_simp
  have 5: "fst (make_download_manager mnist None
      (resolve_download_config mnist (Some force_config)) disk_v1) = Inr ()" by code_simp
  show ?thesis
    using overwrite_same_version_fails[of disk_v1_v2 mnist "Some force_config" None]
      overwrite_same_version_fails[of disk_v1 mnist "Some force_config" None] 1 2 4 5
    unfolding 3 by simp
qed

text \<open>
  Claim C5: when the builder's versioned data directory already exists and the download
  mode is \<open>REUSE_DATASET_IF_EXISTS\<close>, \<open>download_and_prepare\<close> returns without an error and
  changes nothing: the disk keeps its paths and its log gains no entry (no temporary
  directory, no shard, no metadata), and the builder, with the split dictionary of its
  info, is the same.
\<close>

theorem reuse_dataset_if_exists_writes_nothing:
  assumes "gfile_exists w (data_dir b)"
    and "download_mode (resolve_download_config b download_config) = REUSE_DATASET_IF_EXISTS"
  shows "DatasetBuilder_download_and_prepare download_dir download_config b w = (Inr (), b, w)"
  using assms by (simp add: DatasetBuilder_download_and_prepare_def)

theorem reuse_dataset_if_exists_writes_nothing_witness:
  "DatasetBuilder_download_and_prepare None (Some reuse_config) mnist disk_v1_v2 =
     (Inr (), mnist, disk_v1_v2)"
proof -
  have 1: "gfile_exists disk_v1_v2 (data_dir mnist)" by code_simp
  have 2: "download_mode (resolve_download_config mnist (Some reuse_config))
      = REUSE_DATASET_IF_EXISTS" by code_simp
  show ?thesis using reuse_dataset_if_exists_writes_nothing[OF 1 2] .
qed

text \<open>
  Claim C6, as the spec states it: when a split generator declares the reserved split, the
  build fails before any I/O, with no directory created and no shard written for any
  generation unit. It does not hold: with a generator for \<open>train\<close> ahead of the one that
  declares \<open>all\<close>, the build fails after it has created the data directory and written the
  shard of \<open>train\<close>.
\<close>

theorem reserved_split_fails_after_io:
  "fst (GeneratorBasedBuilder_download_and_prepare mnist_with_all None empty_disk) =
     Inl (ValueError Split_ALL_msg) \<and>
   io_log (snd (snd (GeneratorBasedBuilder_download_and_prepare mnist_with_all None empty_disk))) =
     [MakeDirs ''/data/mnist/2.0.0'',
      WriteFromGenerator [''/data/mnist/2.0.0/mnist-train-0''] [2, 3, 4]]"
  by code_simp

text \<open>
  Claim C6, amended: when some split generator declares the reserved split,
  \<open>_download_and_prepare\<close> fails with the \<open>ValueError\<close> of the reserved split and leaves the
  builder's info as it was. Before it fails it has created the data directory if that was
  missing and has written the shards of every split generator ahead of the first one that
  declares the reserved split; it writes nothing for that generator and nothing for the
  generators after it.
\<close>

theorem reserved_split_fails_before_its_write:
  assumes "\<exists>g \<in> set (split_generators b). declares_ALL g"
  shows "GeneratorBasedBuilder_download_and_prepare b m w =
     (Inl (ValueError Split_ALL_msg), b,
      fold (write_split b m) (takeWhile (\<lambda>g. \<not> declares_ALL g) (split_generators b))
        (prepared_dir b w))"
proof -
  obtain r w2 where g: "generate_splits b m (split_generators b) [] (prepared_dir b w) = (r, w2)"
    by (cases "generate_splits b m (split_generators b) [] (prepared_dir b w)")
  have r: "r = Inl (ValueError Split_ALL_msg)"
    using generate_splits_reserved[OF assms, of b m "[]" "prepared_dir b w"] g by simp
  have "w2 = fold (write_split b m) (takeWhile (\<lambda>g. \<not> declares_ALL g) (split_generators b))
      (prepared_dir b w)"
    using generate_splits_world[of b m "split_generators b" "[]" "prepared_dir b w"] g by simp
  with g r show ?thesis
    by (simp add: download_and_prepare_unfold)
qed

theorem reserved_split_fails_before_its_write_witness:
  "GeneratorBasedBuilder_download_and_prepare mnist_with_all None empty_disk =
     (Inl (ValueError Split_ALL_msg), mnist_with_all,
      \<lparr>paths = [''/data/mnist/2.0.0'', ''/data/mnist/2.0.0/mnist-train-0''],
       io_log = [MakeDirs ''/data/mnist/2.0.0'',
                 WriteFromGenerator [''/data/mnist/2.0.0/mnist-train-0''] [2, 3, 4]]\<rparr>)"
proof -
  have 1: "\<exists>g \<in> set (split_generators mnist_with_all). declares_ALL g" by code_simp
  have 2: "fold (write_split mnist_with_all None)
      (takeWhile (\<lambda>g. \<not> declares_ALL g) (split_generators mnist_with_all))
      (prepared_dir mnist_with_all empty_disk) =
      \<lparr>paths = [''/data/mnist/2.0.0'', ''/data/mnist/2.0.0/mnist-train-0''],
       io_log = [MakeDirs ''/data/mnist/2.0.0'',
                 WriteFromGenerator [''/data/mnist/2.0.0/mnist-train-0''] [2, 3, 4]]\<rparr>"
    by code_simp
  show ?thesis using reserved_split_fails_before_its_write[OF 1, of None empty_disk]
    unfolding 2 .
qed


text \<open>
  Claim C7, as the spec states it: \<open>_build_data_dir\<close> returns
  root/dataset_name[/config_name]/version, and if any sibling directory parses as a version
  different from the declared one, a warning naming that version is emitted. The second
  part does not hold: on \<open>disk_v1_v2\<close> the sibling \<open>1.0.0\<close> parses as a version different
  from the declared 2.0.0, and no warning is emitted, because only the greatest version on
  disk is compared.
\<close>

theorem older_version_on_disk_no_warning:
  "''1.0.0'' \<in> set (gfile_listdir disk_v1_v2 (builder_data_dir mnist)) \<and>
   Version_parse ''1.0.0'' = Inr (1, 0, 0) \<and>
   builder_version mnist = (2, 0, 0) \<and>
   build_data_dir mnist disk_v1_v2 = (''/data/mnist/2.0.0'', [])"
  by code_simp

text \<open>
  Claim C7, amended: \<open>_build_data_dir\<close> returns the path
  \<open>join(join(join(root, name)[, config_name]), str(version))\<close>. It considers only the names
  under the builder directory that parse as versions (the others are skipped without an
  error), and it emits one warning, naming the greatest such version, exactly when the
  builder directory exists, holds at least one version and the greatest one differs from
  the declared version; otherwise it emits none. It is a total function that only reads
  the storage backend.
\<close>

theorem build_data_dir_warns_on_greatest_version:
  "build_data_dir b w =
     (os_path_join
        (case builder_config_name b of
           None \<Rightarrow> os_path_join (data_dir_root b) (builder_name b)
         | Some config_name \<Rightarrow>
             os_path_join (os_path_join (data_dir_root b) (builder_name b)) config_name)
        (Version_str (builder_version b)),
      (let on_disk = {v. \<exists>dir_name \<in> set (gfile_listdir w (builder_data_dir b)).
                          Version_parse dir_name = Inr v}
       in if gfile_exists w (builder_data_dir b) \<and> on_disk \<noteq> {} \<and>
             Max on_disk \<noteq> builder_version b
          then [warn_msg (Max on_disk) (builder_name b) (data_dir_root b) (builder_version b)]
          else []))"
proof -
  let ?names = "gfile_listdir w (builder_data_dir b)"
  let ?V = "{v. \<exists>dir_name \<in> set ?names. Version_parse dir_name = Inr v}"
  let ?xs = "versions_of ?names"
  have V: "fst ` set ?xs = ?V" by (rule versions_of_set)
  have dir: "(case builder_config_name b of
           None \<Rightarrow> os_path_join (data_dir_root b) (builder_name b)
         | Some config_name \<Rightarrow>
             os_path_join (os_path_join (data_dir_root b) (builder_name b)) config_name)
      = builder_data_dir b"
    by (simp add: builder_data_dir_def)
  show ?thesis unfolding dir
  proof (cases "gfile_exists w (builder_data_dir b) \<and> ?xs \<noteq> []")
    case False
    then have "other_versions_on_disk w (builder_data_dir b) = []"
      by (auto simp: other_versions_on_disk_def)
    moreover have "\<not> (gfile_exists w (builder_data_dir b) \<and> ?V \<noteq> {})"
      using False V by auto
    ultimately show "build_data_dir b w =
     (os_path_join (builder_data_dir b) (Version_str (builder_version b)),
      (let on_disk = ?V
       in if gfile_exists w (builder_data_dir b) \<and> on_disk \<noteq> {} \<and>
             Max on_disk \<noteq> builder_version b
          then [warn_msg (Max on_disk) (builder_name b) (data_dir_root b) (builder_version b)]
          else []))"
      by (auto simp: build_data_dir_def Let_def)
  next
    case True
    then have xs: "?xs \<noteq> []" by simp
    then have "rev (sort ?xs) \<noteq> []" by (metis length_0_conv length_sort rev_is_Nil_conv)
    then obtain v d rest where o: "rev (sort ?xs) = (v, d) # rest"
      by (cases "rev (sort ?xs)") auto
    have "v = Max ?V" using hd_rev_sort[OF xs] o V by simp
    moreover have "?V \<noteq> {}"
    proof -
      have "fst ` set ?xs \<noteq> {}" using xs by simp
      then show ?thesis unfolding V .
    qed
    ultimately show "build_data_dir b w =
     (os_path_join (builder_data_dir b) (Version_str (builder_version b)),
      (let on_disk = ?V
       in if gfile_exists w (builder_data_dir b) \<and> on_disk \<noteq> {} \<and>
             Max on_disk \<noteq> builder_version b
          then [warn_msg (Max on_disk) (builder_name b) (data_dir_root b) (builder_version b)]
          else []))"
      using True o
      by (simp add: build_data_dir_def Let_def other_versions_on_disk_def)
  qed
qed

text \<open>
  Claim C8: under a positive cap \<open>n\<close>, the records handed to the shard writer for a split
  generator are the first \<open>min(n, total)\<close> examples of its generator, each encoded, in the
  order the generator yields them. This holds for every generator the build hands to the
  writer: all of them, or those ahead of the first one that declares the reserved split.
\<close>

theorem capped_records_in_yield_order:
  assumes "0 < n"
  shows "handed_records
       (io_log (snd (snd (GeneratorBasedBuilder_download_and_prepare b (Some n) w)))) =
     handed_records (io_log w) @
     map (\<lambda>g. map (encode_example b) (take (min (nat n) (length (examples g))) (examples g)))
       (takeWhile (\<lambda>g. \<not> declares_ALL g) (split_generators b))"
  using assms
  by (simp add: download_and_prepare_world io_log_fold_write_split handed_records_append
      handed_records_events handed_records_prepared generator_fn_cases take_min_length)

theorem capped_records_in_yield_order_witness:
  "handed_records
       (io_log (snd (snd (GeneratorBasedBuilder_download_and_prepare mnist (Some 2) empty_disk)))) =
     [[2, 3]]"
proof -
  have 1: "(0::int) < 2" by simp
  have 2: "handed_records (io_log empty_disk) @
     map (\<lambda>g. map (encode_example mnist)
                (take (min (nat 2) (length (examples g))) (examples g)))
       (takeWhile (\<lambda>g. \<not> declares_ALL g) (split_generators mnist)) = [[2, 3]]"
    by code_simp
  show ?thesis using capped_records_in_yield_order[OF 1, of mnist empty_disk] unfolding 2 .
qed

text \<open>
  Claim C10, as stated: a cap of 0 does not limit generation, and the cap takes effect only
  for positive integers. The last part does not hold: the cap \<open>-1\<close> is not positive, and
  under it the generator hands over nothing, where without a cap it hands over every
  example.
\<close>

theorem negative_cap_limits_generation:
  "\<not> (0::int) < - 1 \<and>
   generator_fn Suc (Some (- 1)) [1, 2, 3] = [] \<and>
   generator_fn Suc None [1, 2, 3] = [2, 3, 4]"
  by code_simp

text \<open>
  Claim C10, amended: a cap of 0 is treated as no cap, so every example the generator
  yields is encoded and handed to the writer; the cap takes effect for every integer other
  than 0: a positive \<open>n\<close> keeps the first \<open>n\<close> examples, a negative one keeps none.
\<close>

theorem zero_cap_is_no_cap:
  "generator_fn enc m exs =
     (case m of
        None \<Rightarrow> map enc exs
      | Some n \<Rightarrow> if n = 0 then map enc exs
                  else if 0 < n then map enc (take (nat n) exs)
                  else [])
   \<and> handed_records
       (io_log (snd (snd (GeneratorBasedBuilder_download_and_prepare b (Some 0) w)))) =
     handed_records (io_log w) @
     map (\<lambda>g. map (encode_example b) (examples g))
       (takeWhile (\<lambda>g. \<not> declares_ALL g) (split_generators b))"
  by (simp add: download_and_prepare_world io_log_fold_write_split handed_records_append
      handed_records_events handed_records_prepared generator_fn_cases[of _ "Some 0"]
      generator_fn_cases[of enc m exs])

end
